theory Spec2Isabelle
  imports Main "HOL-Library.AList"
begin

section \<open>Python containers and exceptions\<close>

text \<open>
  The exceptions that the module can raise: its own \<open>DoesNotExistError\<close>, and the
  built-in \<open>ValueError\<close>, \<open>KeyError\<close> (a missing dictionary key) and
  \<open>RuntimeError\<close> (a set changed while it is iterated).
\<close>

datatype error = DoesNotExistError | ValueError | KeyError | RuntimeError

text \<open>
  A Python \<open>set\<close> of labels is a list without repetition; the list order is the order in
  which the set is iterated, which Python leaves unspecified (the model appends a new
  element at the end). A \<open>dict\<close> from labels to sets is an association list in insertion
  order, read with \<^const>\<open>map_of\<close>.
\<close>

type_synonym 'a pyset = "'a list"

type_synonym 'a pydict = "('a \<times> 'a pyset) list"

definition set_add :: "'a \<Rightarrow> 'a pyset \<Rightarrow> 'a pyset" where
  "set_add v s = (if v \<in> set s then s else s @ [v])"

definition set_discard :: "'a \<Rightarrow> 'a pyset \<Rightarrow> 'a pyset" where
  "set_discard v s = removeAll v s"

definition dict_contains :: "'a pydict \<Rightarrow> 'a \<Rightarrow> bool" where
  "dict_contains d k = (map_of d k \<noteq> None)"

definition dict_getitem :: "'a pydict \<Rightarrow> 'a \<Rightarrow> error + 'a pyset" where
  "dict_getitem d k = (case map_of d k of None \<Rightarrow> Inl KeyError | Some s \<Rightarrow> Inr s)"

definition dict_setitem :: "'a pydict \<Rightarrow> 'a \<Rightarrow> 'a pyset \<Rightarrow> 'a pydict" where
  "dict_setitem d k s = AList.update k s d"

definition dict_delitem :: "'a pydict \<Rightarrow> 'a \<Rightarrow> error + 'a pydict" where
  "dict_delitem d k = (if dict_contains d k then Inr (AList.delete k d) else Inl KeyError)"

text \<open>\<open>d[k].add(v)\<close> and \<open>d[k].discard(v)\<close>: the set stored under \<open>k\<close> is changed in place.\<close>

definition dict_add_at :: "'a pydict \<Rightarrow> 'a \<Rightarrow> 'a \<Rightarrow> error + 'a pydict" where
  "dict_add_at d k v =
     (case dict_getitem d k of Inl e \<Rightarrow> Inl e | Inr s \<Rightarrow> Inr (dict_setitem d k (set_add v s)))"

definition dict_discard_at :: "'a pydict \<Rightarrow> 'a \<Rightarrow> 'a \<Rightarrow> error + 'a pydict" where
  "dict_discard_at d k v =
     (case dict_getitem d k of Inl e \<Rightarrow> Inl e | Inr s \<Rightarrow> Inr (dict_setitem d k (set_discard v s)))"

text \<open>
  A pydict represents a Python dictionary of sets when no key and no element of a set
  is repeated.
\<close>

definition pydict_ok :: "'a pydict \<Rightarrow> bool" where
  "pydict_ok d = (distinct (map fst d) \<and> list_all (\<lambda>(k, s). distinct s) d)"

section \<open>Statements\<close>

text \<open>
  A statement runs on a state and returns the exception it raised, if any, with the state
  it left behind; a block stops at the first exception, and so does a \<open>for\<close> loop.
\<close>

type_synonym 's stmt = "'s \<Rightarrow> error option \<times> 's"

fun block :: "'s stmt list \<Rightarrow> 's stmt" where
  "block [] s = (None, s)"
| "block (p # ps) s = (case p s of (Some e, s') \<Rightarrow> (Some e, s') | (None, s') \<Rightarrow> block ps s')"

fun for_each :: "'x list \<Rightarrow> ('x \<Rightarrow> 's stmt) \<Rightarrow> 's stmt" where
  "for_each [] body s = (None, s)"
| "for_each (x # xs) body s =
     (case body x s of (Some e, s') \<Rightarrow> (Some e, s') | (None, s') \<Rightarrow> for_each xs body s')"

section \<open>Graphs\<close>

text \<open>
  \<open>_Graph\<close> has the fields \<open>adj\<close> and \<open>_number_of_edges\<close>; \<open>DirectedGraph\<close> extends it
  with \<open>back_adj\<close>. What \<open>_Graph\<close> defines runs on both, so it is written on the record
  scheme.
\<close>

record 'a graph =
  adj :: "'a pydict"
  number_of_edges :: int

record 'a digraph = "'a graph" +
  back_adj :: "'a pydict"

definition UndirectedGraph :: "'a graph" where
  "UndirectedGraph = \<lparr>adj = [], number_of_edges = 0\<rparr>"

definition DirectedGraph :: "'a digraph" where
  "DirectedGraph = \<lparr>adj = [], number_of_edges = 0, back_adj = []\<rparr>"

subsection \<open>Views\<close>

text \<open>
  A view keeps a reference to a dictionary of the graph, not a copy: the dictionaries of a
  graph are created once and only changed in place. A reference is modelled as the
  function that reads the dictionary in the graph's current state, so every read through
  a view names the state it reads in. The edge view's second field is an integer, which
  Python passes by value.
\<close>

record ('a, 'g) nodes_view =
  nv_nodes :: "'g \<Rightarrow> 'a list"

record ('a, 'g) edge_view =
  ev_adj :: "'g \<Rightarrow> 'a pydict"
  ev_number_of_edges :: int

definition nodes :: "('a, 'm) graph_scheme \<Rightarrow> ('a, ('a, 'm) graph_scheme) nodes_view" where
  "nodes g = \<lparr>nv_nodes = (\<lambda>now. map fst (adj now))\<rparr>"

definition nodes_contains :: "('a, 'g) nodes_view \<Rightarrow> 'g \<Rightarrow> 'a \<Rightarrow> bool" where
  "nodes_contains vw now node = (node \<in> set (nv_nodes vw now))"

definition nodes_len :: "('a, 'g) nodes_view \<Rightarrow> 'g \<Rightarrow> nat" where
  "nodes_len vw now = length (nv_nodes vw now)"

definition nodes_iter :: "('a, 'g) nodes_view \<Rightarrow> 'g \<Rightarrow> 'a list" where
  "nodes_iter vw now = nv_nodes vw now"

definition edges :: "('a, 'm) graph_scheme \<Rightarrow> ('a, ('a, 'm) graph_scheme) edge_view" where
  "edges g = \<lparr>ev_adj = adj, ev_number_of_edges = number_of_edges g\<rparr>"

text \<open>\<open>_EdgeView.__contains__\<close>: the lookup's \<open>KeyError\<close>, and only it, is caught.\<close>

definition ev_contains :: "('a, 'g) edge_view \<Rightarrow> 'g \<Rightarrow> 'a \<times> 'a \<Rightarrow> error + bool" where
  "ev_contains vw now edge =
     (case edge of (u, v) \<Rightarrow>
        (case dict_getitem (ev_adj vw now) u of
           Inr s \<Rightarrow> Inr (v \<in> set s)
         | Inl KeyError \<Rightarrow> Inr False
         | Inl e \<Rightarrow> Inl e))"

text \<open>
  \<open>_EdgeView.__len__\<close> returns the integer that the view was created with. The built-in
  \<open>len\<close> passes on what \<open>__len__\<close> returns, and raises \<open>ValueError\<close> when that is
  negative; \<open>len(view)\<close> is \<open>ev_len\<close>.
\<close>

definition ev_dunder_len :: "('a, 'g) edge_view \<Rightarrow> int" where
  "ev_dunder_len vw = ev_number_of_edges vw"

definition py_len :: "int \<Rightarrow> error + int" where
  "py_len n = (if n < 0 then Inl ValueError else Inr n)"

definition ev_len :: "('a, 'g) edge_view \<Rightarrow> error + int" where
  "ev_len vw = py_len (ev_dunder_len vw)"

text \<open>
  \<open>_UndirectedEdgeView.__iter__\<close>: \<open>seen\<close> holds the \<open>frozenset((u, v))\<close> of every pair
  yielded so far. The inner loop returns what it yields with the new \<open>seen\<close>.
\<close>

definition frozenset_pair :: "'a \<times> 'a \<Rightarrow> 'a set" where
  "frozenset_pair e = (case e of (u, v) \<Rightarrow> {u, v})"

fun undirected_iter_row :: "'a \<Rightarrow> 'a pyset \<Rightarrow> 'a set set \<Rightarrow> ('a \<times> 'a) list \<times> 'a set set" where
  "undirected_iter_row u [] seen = ([], seen)"
| "undirected_iter_row u (v # vs) seen =
     (let edge = frozenset_pair (u, v) in
      if edge \<notin> seen
      then (case undirected_iter_row u vs (insert edge seen) of
              (out, seen') \<Rightarrow> ((u, v) # out, seen'))
      else undirected_iter_row u vs seen)"

fun undirected_iter_items :: "'a pydict \<Rightarrow> 'a set set \<Rightarrow> ('a \<times> 'a) list" where
  "undirected_iter_items [] seen = []"
| "undirected_iter_items ((u, neighbors) # items) seen =
     (case undirected_iter_row u neighbors seen of
        (out, seen') \<Rightarrow> out @ undirected_iter_items items seen')"

definition undirected_iter :: "('a, 'g) edge_view \<Rightarrow> 'g \<Rightarrow> ('a \<times> 'a) list" where
  "undirected_iter vw now = undirected_iter_items (ev_adj vw now) {}"

text \<open>\<open>_DirectedEdgeView.__iter__\<close>.\<close>

definition directed_iter :: "('a, 'g) edge_view \<Rightarrow> 'g \<Rightarrow> ('a \<times> 'a) list" where
  "directed_iter vw now =
     concat (map (\<lambda>(u, neighbors). map (\<lambda>v. (u, v)) neighbors) (ev_adj vw now))"

text \<open>The pairs \<open>(u, v)\<close> with \<open>v\<close> in the set stored under the key \<open>u\<close>.\<close>

definition stored_pairs :: "'a pydict \<Rightarrow> ('a \<times> 'a) set" where
  "stored_pairs d = {(u, v). \<exists>neighbors. (u, neighbors) \<in> set d \<and> v \<in> set neighbors}"

subsection \<open>Statements on the fields of a graph\<close>

definition adj_add :: "'a \<Rightarrow> 'a \<Rightarrow> ('a, 'm) graph_scheme stmt" where
  "adj_add k v g =
     (case dict_add_at (adj g) k v of Inl e \<Rightarrow> (Some e, g) | Inr a \<Rightarrow> (None, g\<lparr>adj := a\<rparr>))"

definition adj_discard :: "'a \<Rightarrow> 'a \<Rightarrow> ('a, 'm) graph_scheme stmt" where
  "adj_discard k v g =
     (case dict_discard_at (adj g) k v of Inl e \<Rightarrow> (Some e, g) | Inr a \<Rightarrow> (None, g\<lparr>adj := a\<rparr>))"

definition adj_del :: "'a \<Rightarrow> ('a, 'm) graph_scheme stmt" where
  "adj_del k g =
     (case dict_delitem (adj g) k of Inl e \<Rightarrow> (Some e, g) | Inr a \<Rightarrow> (None, g\<lparr>adj := a\<rparr>))"

definition back_adj_add :: "'a \<Rightarrow> 'a \<Rightarrow> 'a digraph stmt" where
  "back_adj_add k v g =
     (case dict_add_at (back_adj g) k v of
        Inl e \<Rightarrow> (Some e, g) | Inr b \<Rightarrow> (None, g\<lparr>back_adj := b\<rparr>))"

definition back_adj_discard :: "'a \<Rightarrow> 'a \<Rightarrow> 'a digraph stmt" where
  "back_adj_discard k v g =
     (case dict_discard_at (back_adj g) k v of
        Inl e \<Rightarrow> (Some e, g) | Inr b \<Rightarrow> (None, g\<lparr>back_adj := b\<rparr>))"

definition count_add :: "int \<Rightarrow> ('a, 'm) graph_scheme stmt" where
  "count_add n g = (None, g\<lparr>number_of_edges := number_of_edges g + n\<rparr>)"

definition raise :: "error \<Rightarrow> 's stmt" where
  "raise e s = (Some e, s)"

subsection \<open>\<open>_Graph\<close>\<close>

definition add_node :: "'a \<Rightarrow> ('a, 'm) graph_scheme stmt" where
  "add_node label g =
     (if \<not> nodes_contains (nodes g) g label
      then (None, g\<lparr>adj := dict_setitem (adj g) label []\<rparr>)
      else (None, g))"

text \<open>\<open>next(iter(self.nodes))\<close> raises \<open>StopIteration\<close> when there is no node.\<close>

definition arbitrary_node :: "('a, 'm) graph_scheme \<Rightarrow> error + 'a" where
  "arbitrary_node g =
     (case nodes_iter (nodes g) g of [] \<Rightarrow> Inl DoesNotExistError | x # _ \<Rightarrow> Inr x)"

subsection \<open>\<open>UndirectedGraph\<close>\<close>

definition u_ensure :: "'a \<Rightarrow> 'a graph stmt" where
  "u_ensure x g =
     (if \<not> dict_contains (adj g) x then (None, g\<lparr>adj := dict_setitem (adj g) x []\<rparr>)
      else (None, g))"

text \<open>
  The loop over \<open>{u_label, v_label}\<close> runs in an order that Python does not fix; the
  model takes \<open>u_label\<close> first.
\<close>

definition u_add_edge :: "'a \<Rightarrow> 'a \<Rightarrow> 'a graph stmt" where
  "u_add_edge u_label v_label g =
     (if u_label = v_label then raise ValueError g
      else
        block [
          for_each [u_label, v_label] u_ensure,
          (\<lambda>g. case ev_contains (edges g) g (u_label, v_label) of
                  Inl e \<Rightarrow> raise e g
                | Inr True \<Rightarrow> (None, g)
                | Inr False \<Rightarrow>
                    block [adj_add u_label v_label, adj_add v_label u_label, count_add 1] g)
        ] g)"

text \<open>
  The loop of \<open>remove_node\<close> iterates the set \<open>self.adj[label]\<close> itself. Its body changes
  the set of the neighbor; when the neighbor is \<open>label\<close>, that is the set being iterated,
  and the iterator raises \<open>RuntimeError\<close> at its next step.
\<close>

definition u_remove_node :: "'a \<Rightarrow> 'a graph stmt" where
  "u_remove_node label g =
     (case dict_getitem (adj g) label of
        Inl KeyError \<Rightarrow> raise DoesNotExistError g
      | Inl e \<Rightarrow> raise e g
      | Inr neighbors \<Rightarrow>
          block [
            for_each neighbors (\<lambda>neighbor.
              block [
                adj_discard neighbor label,
                count_add (- 1),
                (\<lambda>g. if neighbor = label then raise RuntimeError g else (None, g))
              ]),
            adj_del label
          ] g)"

definition u_remove_edge :: "'a \<Rightarrow> 'a \<Rightarrow> 'a graph stmt" where
  "u_remove_edge u_label v_label g =
     (case ev_contains (edges g) g (u_label, v_label) of
        Inl e \<Rightarrow> raise e g
      | Inr False \<Rightarrow> raise DoesNotExistError g
      | Inr True \<Rightarrow>
          block [adj_discard u_label v_label, adj_discard v_label u_label, count_add (- 1)] g)"

definition u_neighbors :: "'a graph \<Rightarrow> 'a \<Rightarrow> error + 'a pyset" where
  "u_neighbors g label = dict_getitem (adj g) label"

subsection \<open>\<open>DirectedGraph\<close>\<close>

definition d_ensure :: "'a \<Rightarrow> 'a digraph stmt" where
  "d_ensure x g =
     (let g1 = (if \<not> dict_contains (adj g) x then g\<lparr>adj := dict_setitem (adj g) x []\<rparr> else g)
      in if \<not> dict_contains (back_adj g1) x
         then (None, g1\<lparr>back_adj := dict_setitem (back_adj g1) x []\<rparr>)
         else (None, g1))"

text \<open>A self-loop makes \<open>{u_label, v_label}\<close> a set of one label.\<close>

definition d_add_edge :: "'a \<Rightarrow> 'a \<Rightarrow> 'a digraph stmt" where
  "d_add_edge u_label v_label g =
     block [
       for_each (if u_label = v_label then [u_label] else [u_label, v_label]) d_ensure,
       adj_add u_label v_label,
       back_adj_add v_label u_label,
       count_add 1
     ] g"

definition d_remove_node :: "'a \<Rightarrow> 'a digraph stmt" where
  "d_remove_node label g =
     (if \<not> nodes_contains (nodes g) g label then raise DoesNotExistError g
      else
        block [
          (\<lambda>g. case dict_getitem (back_adj g) label of
                  Inl e \<Rightarrow> raise e g
                | Inr preds \<Rightarrow>
                    if label \<in> set preds
                    then block [adj_discard label label, back_adj_discard label label,
                                count_add (- 1)] g
                    else (None, g)),
          (\<lambda>g. case dict_getitem (back_adj g) label of
                  Inl e \<Rightarrow> raise e g
                | Inr preds \<Rightarrow>
                    for_each preds (\<lambda>parent.
                      block [adj_discard parent label, count_add (- 1)]) g),
          (\<lambda>g. case dict_getitem (adj g) label of
                  Inl e \<Rightarrow> raise e g
                | Inr succs \<Rightarrow> count_add (- int (length succs)) g),
          adj_del label
        ] g)"

definition d_remove_edge :: "'a \<Rightarrow> 'a \<Rightarrow> 'a digraph stmt" where
  "d_remove_edge u_label v_label g =
     (case ev_contains (edges g) g (u_label, v_label) of
        Inl e \<Rightarrow> raise e g
      | Inr False \<Rightarrow> raise DoesNotExistError g
      | Inr True \<Rightarrow>
          block [adj_discard u_label v_label, back_adj_discard v_label u_label,
                 count_add (- 1)] g)"

definition predecessors :: "'a digraph \<Rightarrow> 'a \<Rightarrow> error + 'a pyset" where
  "predecessors g label = dict_getitem (back_adj g) label"

definition successors :: "'a digraph \<Rightarrow> 'a \<Rightarrow> error + 'a pyset" where
  "successors g label = dict_getitem (adj g) label"

definition d_neighbors :: "'a digraph \<Rightarrow> 'a \<Rightarrow> error + 'a pyset" where
  "d_neighbors g label = successors g label"

subsection \<open>Calls of the public methods\<close>

text \<open>
  A call of a public method, as a statement on the graph. A method that returns a value
  leaves the graph as it is, and the call keeps whether it raised. The view of a call is
  the one obtained at the call, as in \<open>len(g.edges)\<close>. The methods of the views that are
  left out (iteration of both views, \<open>len\<close> and membership of the node view) have no
  \<open>raise\<close> and no failing lookup, and the length of the key view is not negative.
\<close>

definition query :: "error + 'r \<Rightarrow> 's stmt" where
  "query r s = (case r of Inl e \<Rightarrow> (Some e, s) | Inr _ \<Rightarrow> (None, s))"

datatype 'a u_method =
    U_add_node 'a
  | U_add_edge 'a 'a
  | U_remove_node 'a
  | U_remove_edge 'a 'a
  | U_neighbors 'a
  | U_arbitrary_node
  | U_edges_contains 'a 'a
  | U_edges_len

fun u_call :: "'a u_method \<Rightarrow> 'a graph stmt" where
  "u_call (U_add_node x) g = add_node x g"
| "u_call (U_add_edge u v) g = u_add_edge u v g"
| "u_call (U_remove_node x) g = u_remove_node x g"
| "u_call (U_remove_edge u v) g = u_remove_edge u v g"
| "u_call (U_neighbors x) g = query (u_neighbors g x) g"
| "u_call U_arbitrary_node g = query (arbitrary_node g) g"
| "u_call (U_edges_contains u v) g = query (ev_contains (edges g) g (u, v)) g"
| "u_call U_edges_len g = query (ev_len (edges g)) g"

datatype 'a d_method =
    D_add_node 'a
  | D_add_edge 'a 'a
  | D_remove_node 'a
  | D_remove_edge 'a 'a
  | D_predecessors 'a
  | D_successors 'a
  | D_neighbors 'a
  | D_arbitrary_node
  | D_edges_contains 'a 'a
  | D_edges_len

fun d_call :: "'a d_method \<Rightarrow> 'a digraph stmt" where
  "d_call (D_add_node x) g = add_node x g"
| "d_call (D_add_edge u v) g = d_add_edge u v g"
| "d_call (D_remove_node x) g = d_remove_node x g"
| "d_call (D_remove_edge u v) g = d_remove_edge u v g"
| "d_call (D_predecessors x) g = query (predecessors g x) g"
| "d_call (D_successors x) g = query (successors g x) g"
| "d_call (D_neighbors x) g = query (d_neighbors g x) g"
| "d_call D_arbitrary_node g = query (arbitrary_node g) g"
| "d_call (D_edges_contains u v) g = query (ev_contains (edges g) g (u, v)) g"
| "d_call D_edges_len g = query (ev_len (edges g)) g"

text \<open>
  A program that calls the methods of one undirected graph one after the other, and
  goes on after an exception with the graph as the failed call left it.
\<close>

fun u_run :: "'a u_method list \<Rightarrow> 'a graph \<Rightarrow> 'a graph" where
  "u_run [] g = g"
| "u_run (c # cs) g = u_run cs (snd (u_call c g))"

text \<open>
  The same for a directed graph, keeping what each call raised: the exceptions of the
  calls, in their order, and the graph after the last call.
\<close>

fun d_trace :: "'a d_method list \<Rightarrow> 'a digraph \<Rightarrow> error option list \<times> 'a digraph" where
  "d_trace [] g = ([], g)"
| "d_trace (c # cs) g =
     (case d_call c g of
        (e, g') \<Rightarrow> (case d_trace cs g' of (es, g'') \<Rightarrow> (e # es, g'')))"

subsection \<open>The invariant of an undirected store\<close>

text \<open>
  \<open>v\<close> is in \<open>adj[u]\<close>; and the data model's invariant of an undirected graph: the store
  is symmetric and has no self-loop.
\<close>

definition has_edge :: "'a pydict \<Rightarrow> 'a \<Rightarrow> 'a \<Rightarrow> bool" where
  "has_edge d u v = (case map_of d u of None \<Rightarrow> False | Some s \<Rightarrow> v \<in> set s)"

definition undirected_ok :: "'a pydict \<Rightarrow> bool" where
  "undirected_ok d = (\<forall>u v. has_edge d u v \<longrightarrow> u \<noteq> v \<and> has_edge d v u)"

subsection \<open>The graph of the removal test\<close>

text \<open>
  The directed graph that \<open>test_remove_node_removes_edges_too_directed\<close> builds before it
  removes node 1: the edges (1,3), (3,1), (5,1), (1,6) and the self-loop (1,1).
\<close>

definition removal_test_graph :: "nat digraph" where
  "removal_test_graph =
     snd (d_add_edge 1 1 (snd (d_add_edge 1 6 (snd (d_add_edge 5 1
       (snd (d_add_edge 3 1 (snd (d_add_edge 1 3 DirectedGraph)))))))))"

section \<open>Unfolding the model\<close>

lemmas container_defs = set_add_def set_discard_def dict_contains_def dict_getitem_def
  dict_setitem_def dict_delitem_def dict_add_at_def dict_discard_at_def

lemmas view_defs = nodes_def nodes_contains_def nodes_len_def nodes_iter_def edges_def
  ev_contains_def ev_dunder_len_def py_len_def ev_len_def frozenset_pair_def undirected_iter_def directed_iter_def

lemmas stmt_defs = adj_add_def adj_discard_def adj_del_def back_adj_add_def
  back_adj_discard_def count_add_def raise_def

lemmas op_defs = add_node_def arbitrary_node_def u_ensure_def u_add_edge_def u_remove_node_def
  u_remove_edge_def u_neighbors_def d_ensure_def d_add_edge_def d_remove_node_def
  d_remove_edge_def predecessors_def successors_def d_neighbors_def
  UndirectedGraph_def DirectedGraph_def

lemmas run_defs = container_defs view_defs stmt_defs op_defs

section \<open>Dictionaries and the statements on them\<close>

lemma dict_contains_keys: "dict_contains d k \<longleftrightarrow> k \<in> fst ` set d"
  by (simp add: dict_contains_def map_of_eq_None_iff)

lemma map_of_setitem: "map_of (dict_setitem d k s) = (map_of d)(k \<mapsto> s)"
  by (simp add: dict_setitem_def update_conv')

lemma dict_contains_setitem:
  "dict_contains (dict_setitem d k s) k' \<longleftrightarrow> k' = k \<or> dict_contains d k'"
  by (simp add: dict_contains_def map_of_setitem)

lemma adj_add_present:
  "map_of (adj g) k = Some s \<Longrightarrow>
   adj_add k v g = (None, g\<lparr>adj := dict_setitem (adj g) k (set_add v s)\<rparr>)"
  by (simp add: adj_add_def dict_add_at_def dict_getitem_def)

lemma back_adj_add_present:
  "map_of (back_adj g) k = Some s \<Longrightarrow>
   back_adj_add k v g = (None, g\<lparr>back_adj := dict_setitem (back_adj g) k (set_add v s)\<rparr>)"
  by (simp add: back_adj_add_def dict_add_at_def dict_getitem_def)

section \<open>Adding a directed edge\<close>

lemma d_ensure_ok:
  "fst (d_ensure x g) = None"
  "number_of_edges (snd (d_ensure x g)) = number_of_edges g"
  "dict_contains (adj (snd (d_ensure x g))) k \<longleftrightarrow> k = x \<or> dict_contains (adj g) k"
  "dict_contains (back_adj (snd (d_ensure x g))) k \<longleftrightarrow> k = x \<or> dict_contains (back_adj g) k"
  by (auto simp: d_ensure_def Let_def dict_contains_setitem)

lemma for_each_d_ensure:
  "fst (for_each xs d_ensure g) = None \<and>
   number_of_edges (snd (for_each xs d_ensure g)) = number_of_edges g \<and>
   (\<forall>k. dict_contains (adj (snd (for_each xs d_ensure g))) k
        \<longleftrightarrow> k \<in> set xs \<or> dict_contains (adj g) k) \<and>
   (\<forall>k. dict_contains (back_adj (snd (for_each xs d_ensure g))) k
        \<longleftrightarrow> k \<in> set xs \<or> dict_contains (back_adj g) k)"
proof (induction xs arbitrary: g)
  case Nil
  show ?case by simp
next
  case (Cons x xs)
  obtain g1 where g1: "d_ensure x g = (None, g1)"
    using d_ensure_ok(1) [of x g] by (cases "d_ensure x g") auto
  have n: "number_of_edges g1 = number_of_edges g"
    using d_ensure_ok(2) [of x g] by (simp add: g1)
  have a: "dict_contains (adj g1) k \<longleftrightarrow> k = x \<or> dict_contains (adj g) k" for k
    using d_ensure_ok(3) [of x g k] by (simp add: g1)
  have b: "dict_contains (back_adj g1) k \<longleftrightarrow> k = x \<or> dict_contains (back_adj g) k" for k
    using d_ensure_ok(4) [of x g k] by (simp add: g1)
  show ?case
    using Cons.IH [of g1] by (auto simp: g1 n a b)
qed

text \<open>
  \<open>DirectedGraph.add_edge\<close> never raises, and it adds one to the counter on every call:
  nothing in it asks whether the edge is there already.
\<close>

lemma d_add_edge_increments:
  "fst (d_add_edge u v g) = None \<and>
   number_of_edges (snd (d_add_edge u v g)) = number_of_edges g + 1"
proof -
  let ?xs = "if u = v then [u] else [u, v]"
  obtain g1 where g1: "for_each ?xs d_ensure g = (None, g1)"
    using for_each_d_ensure [of ?xs g] by (cases "for_each ?xs d_ensure g") auto
  have p: "g1 = snd (for_each ?xs d_ensure g)" using g1 by simp
  have n: "number_of_edges g1 = number_of_edges g"
    unfolding p using for_each_d_ensure [of ?xs g] by blast
  have "dict_contains (adj g1) u"
    unfolding p using for_each_d_ensure [of ?xs g] by simp
  then obtain s where s: "map_of (adj g1) u = Some s"
    by (auto simp: dict_contains_def)
  have "dict_contains (back_adj g1) v"
    unfolding p using for_each_d_ensure [of ?xs g] by simp
  then obtain t where t: "map_of (back_adj g1) v = Some t"
    by (auto simp: dict_contains_def)
  show ?thesis
    unfolding d_add_edge_def
    by (simp add: g1 adj_add_present [OF s] back_adj_add_present t count_add_def n)
qed

text \<open>
  Claim C1 says that \<open>add_edge(u, v)\<close> on a directed graph that already has the edge
  \<open>(u, v)\<close> leaves the edge count unchanged. The code does otherwise: on the empty directed
  graph, after \<open>add_edge(1, 2)\<close> the edge view has \<open>(1, 2)\<close> and counts 1, and a second
  \<open>add_edge(1, 2)\<close> returns normally with the same single edge in the store and the
  counter at 2.
\<close>

theorem directed_add_edge_twice_counts_two:
  "ev_contains (edges (snd (d_add_edge 1 2 DirectedGraph)))
     (snd (d_add_edge 1 2 DirectedGraph)) (1, 2 :: nat) = Inr True
   \<and> number_of_edges (snd (d_add_edge (1 :: nat) 2 DirectedGraph)) = 1
   \<and> d_add_edge 1 2 (snd (d_add_edge (1 :: nat) 2 DirectedGraph))
       = (None, \<lparr>adj = [(1, [2]), (2, [])], number_of_edges = 2,
                 back_adj = [(1, []), (2, [1])]\<rparr>)
   \<and> directed_iter (edges DirectedGraph)
        (snd (d_add_edge 1 2 (snd (d_add_edge (1 :: nat) 2 DirectedGraph)))) = [(1, 2)]"
  by (simp add: run_defs)

section \<open>Removing a directed node leaves the reverse mapping behind\<close>

text \<open>
  Claim C2 says that after every sequence of operations \<open>v\<close> is in \<open>adj[u]\<close> exactly when
  \<open>u\<close> is in \<open>back_adj[v]\<close>, and that after a directed \<open>remove_node(label)\<close> no predecessor
  set contains \<open>label\<close> and \<open>back_adj\<close> has no entry for it. The code does otherwise:
  \<open>DirectedGraph.remove_node\<close> deletes \<open>adj[label]\<close> only. On the empty directed graph,
  \<open>add_edge(1, 2)\<close> and then \<open>remove_node(1)\<close> return normally and leave 1 among the
  predecessors of 2 and an entry for 1 in \<open>back_adj\<close>, while \<open>(1, 2)\<close> is no edge any
  more; a following \<open>remove_node(2)\<close> then raises \<open>KeyError\<close>.
\<close>

theorem directed_remove_node_keeps_back_adj:
  "d_remove_node 1 (snd (d_add_edge (1 :: nat) 2 DirectedGraph))
     = (None, \<lparr>adj = [(2, [])], number_of_edges = 0, back_adj = [(1, []), (2, [1])]\<rparr>)
   \<and> predecessors (snd (d_remove_node 1 (snd (d_add_edge (1 :: nat) 2 DirectedGraph)))) 2
       = Inr [1]
   \<and> predecessors (snd (d_remove_node 1 (snd (d_add_edge (1 :: nat) 2 DirectedGraph)))) 1
       = Inr []
   \<and> ev_contains (edges DirectedGraph)
        (snd (d_remove_node 1 (snd (d_add_edge (1 :: nat) 2 DirectedGraph)))) (1, 2)
       = Inr False
   \<and> fst (d_remove_node 2
        (snd (d_remove_node 1 (snd (d_add_edge (1 :: nat) 2 DirectedGraph))))) = Some KeyError"
  by (simp add: run_defs)

section \<open>Adding a node to a directed graph\<close>

text \<open>\<open>add_node\<close> is the one of \<open>_Graph\<close>, which knows \<open>adj\<close> only.\<close>

lemma add_node_back_adj: "back_adj (snd (add_node label g)) = back_adj g"
  by (simp add: add_node_def)

text \<open>
  Claim C3 says that \<open>add_node(label)\<close> on a directed graph creates an empty entry for an
  absent \<open>label\<close> in \<open>adj\<close> and in \<open>back_adj\<close>. The code does otherwise: on the empty
  directed graph, \<open>add_node(1)\<close> creates the entry of \<open>adj\<close> and leaves \<open>back_adj\<close> empty,
  so that \<open>predecessors(1)\<close> and \<open>remove_node(1)\<close> raise \<open>KeyError\<close> on the node just
  added.
\<close>

theorem directed_add_node_skips_back_adj:
  "add_node (1 :: nat) DirectedGraph
     = (None, \<lparr>adj = [(1, [])], number_of_edges = 0, back_adj = []\<rparr>)
   \<and> nodes_contains (nodes DirectedGraph) (snd (add_node (1 :: nat) DirectedGraph)) 1
   \<and> predecessors (snd (add_node (1 :: nat) DirectedGraph)) 1 = Inl KeyError
   \<and> fst (d_remove_node 1 (snd (add_node (1 :: nat) DirectedGraph))) = Some KeyError"
  by (simp add: run_defs)

section \<open>What a view sees after a mutation\<close>

text \<open>
  Claim C4 says that a view obtained before a mutation agrees with one obtained after
  it, and that the count of an earlier edge view is the current edge count. The code
  does otherwise for the count: the view keeps the integer it was created with. The edge
  view of the empty undirected graph, read after \<open>add_edge(1, 2)\<close>, has \<open>(1, 2)\<close> as a
  member and yields it, and still counts 0, where a view obtained after the call counts 1.
\<close>

theorem edge_view_count_is_stale:
  "ev_contains (edges UndirectedGraph) (snd (u_add_edge (1 :: nat) 2 UndirectedGraph)) (1, 2)
     = Inr True
   \<and> undirected_iter (edges UndirectedGraph) (snd (u_add_edge (1 :: nat) 2 UndirectedGraph))
       = [(1, 2)]
   \<and> ev_len (edges (UndirectedGraph :: nat graph)) = Inr 0
   \<and> ev_len (edges (snd (u_add_edge (1 :: nat) 2 UndirectedGraph))) = Inr 1"
  by (simp add: run_defs doubleton_eq_iff)

text \<open>
  Claim C10: on either kind of graph and for every pair \<open>(u, v)\<close>, the membership query of
  the edge view returns a boolean and does not raise; it returns \<open>False\<close> when \<open>u\<close> is
  not a node.
\<close>

theorem edge_membership_total:
  "(\<exists>b. ev_contains (edges g) now (u, v) = Inr b) \<and>
   (\<not> nodes_contains (nodes g) now u \<longrightarrow> ev_contains (edges g) now (u, v) = Inr False)"
  by (auto simp: view_defs container_defs split: option.splits
      dest: map_of_SomeD intro: rev_image_eqI)

theorem edge_membership_total_witness:
  "\<not> nodes_contains (nodes DirectedGraph) (snd (d_add_edge (1 :: nat) 3 DirectedGraph)) 5
   \<and> ev_contains (edges DirectedGraph) (snd (d_add_edge (1 :: nat) 3 DirectedGraph)) (5, 2)
       = Inr False"
  using edge_membership_total
    [of DirectedGraph "snd (d_add_edge (1 :: nat) 3 DirectedGraph)" 5 2]
  by (simp add: run_defs)

section \<open>Removing a directed node with a self-loop\<close>

lemma adj_discard_present:
  "map_of (adj g) k = Some s \<Longrightarrow>
   adj_discard k v g = (None, g\<lparr>adj := dict_setitem (adj g) k (set_discard v s)\<rparr>)"
  by (simp add: adj_discard_def dict_discard_at_def dict_getitem_def)

lemma back_adj_discard_present:
  "map_of (back_adj g) k = Some s \<Longrightarrow>
   back_adj_discard k v g
     = (None, g\<lparr>back_adj := dict_setitem (back_adj g) k (set_discard v s)\<rparr>)"
  by (simp add: back_adj_discard_def dict_discard_at_def dict_getitem_def)

lemma adj_del_present:
  "map_of (adj g) k = Some s \<Longrightarrow> adj_del k g = (None, g\<lparr>adj := AList.delete k (adj g)\<rparr>)"
  by (simp add: adj_del_def dict_delitem_def dict_contains_def)

lemma dict_getitem_present: "map_of d k = Some s \<Longrightarrow> dict_getitem d k = Inr s"
  by (simp add: dict_getitem_def)

lemma set_discard_idem: "set_discard x (set_discard x s) = set_discard x s"
  by (simp add: set_discard_def)

lemma block_step: "p s = (None, s') \<Longrightarrow> block (p # ps) s = block ps s'"
  by simp

text \<open>
  The loop over the predecessors: when every one of them is a key of \<open>adj\<close>, it runs to
  its end, takes one from the counter for each, and removes the label from their sets.
\<close>

lemma d_remove_node_loop:
  fixes g :: "'a digraph"
  assumes "\<forall>p\<in>set ps. dict_contains (adj g) p"
  shows "\<exists>g'. for_each ps (\<lambda>parent. block [adj_discard parent x, count_add (- 1)]) g = (None, g')
     \<and> number_of_edges g' = number_of_edges g - int (length ps)
     \<and> back_adj g' = back_adj g
     \<and> (\<forall>k. map_of (adj g') k =
           (if k \<in> set ps then map_option (set_discard x) (map_of (adj g) k)
            else map_of (adj g) k))"
  using assms
proof (induction ps arbitrary: g)
  case Nil
  show ?case by simp
next
  case (Cons p ps)
  from Cons.prems obtain s where s: "map_of (adj g) p = Some s"
    by (auto simp: dict_contains_def)
  define g1 where "g1 = g\<lparr>adj := dict_setitem (adj g) p (set_discard x s),
    number_of_edges := number_of_edges g - 1\<rparr>"
  have body: "block [adj_discard p x, count_add (- 1)] g = (None, g1)"
    by (simp add: adj_discard_present [OF s] count_add_def g1_def)
  have m1: "map_of (adj g1) = (map_of (adj g))(p \<mapsto> set_discard x s)"
    by (simp add: g1_def map_of_setitem)
  have "\<forall>q\<in>set ps. dict_contains (adj g1) q"
    using Cons.prems by (simp add: dict_contains_def m1)
  from Cons.IH [OF this] obtain g' where
    run: "for_each ps (\<lambda>parent. block [adj_discard parent x, count_add (- 1)]) g1 = (None, g')"
    and n: "number_of_edges g' = number_of_edges g1 - int (length ps)"
    and b: "back_adj g' = back_adj g1"
    and m: "\<forall>k. map_of (adj g') k =
           (if k \<in> set ps then map_option (set_discard x) (map_of (adj g1) k)
            else map_of (adj g1) k)"
    by blast
  have "for_each (p # ps) (\<lambda>parent. block [adj_discard parent x, count_add (- 1)]) g = (None, g')"
    using body run by simp
  moreover have "number_of_edges g' = number_of_edges g - int (length (p # ps))"
    using n by (simp add: g1_def)
  moreover have "back_adj g' = back_adj g"
    using b by (simp add: g1_def)
  moreover have "\<forall>k. map_of (adj g') k =
           (if k \<in> set (p # ps) then map_option (set_discard x) (map_of (adj g) k)
            else map_of (adj g) k)"
    using m s by (auto simp: m1 set_discard_idem)
  ultimately show ?case by blast
qed

lemma length_discard:
  "x \<in> set s \<Longrightarrow> distinct s \<Longrightarrow> int (length s) = 1 + int (length (set_discard x s))"
  by (induction s) (auto simp: set_discard_def)

lemma length_discard_card:
  "distinct s \<Longrightarrow> length (set_discard x s) = card (set s - {x})"
  using distinct_card [of "removeAll x s"] by (simp add: set_discard_def distinct_removeAll)

text \<open>
  What \<open>remove_node(x)\<close> takes from the counter when \<open>x\<close> has the self-loop: 1 for the
  self-loop, 1 for each other label in \<open>back_adj[x]\<close> and 1 for each other label in
  \<open>adj[x]\<close>, whichever branch the self-loop test takes. The call returns normally when
  every label in \<open>back_adj[x]\<close> is a key of \<open>adj\<close>. The labels in \<open>back_adj[x]\<close> are the
  edges into \<open>x\<close> only as long as \<open>back_adj\<close> agrees with \<open>adj\<close>.
\<close>

lemma directed_remove_node_self_loop:
  fixes g :: "'a digraph"
  assumes succs: "map_of (adj g) x = Some succs"
    and loop: "x \<in> set succs"
    and ds: "distinct succs"
    and preds: "map_of (back_adj g) x = Some preds"
    and dp: "distinct preds"
    and keys: "\<forall>p\<in>set preds. dict_contains (adj g) p"
  shows "fst (d_remove_node x g) = None \<and>
    number_of_edges (snd (d_remove_node x g)) =
      number_of_edges g - 1 - int (card (set preds - {x})) - int (card (set succs - {x}))"
proof -
  have node: "nodes_contains (nodes g) g x"
    using succs
    by (auto simp: nodes_contains_def nodes_def dest: map_of_SomeD intro: rev_image_eqI)
  show ?thesis
  proof (cases "x \<in> set preds")
    case True
    define g1 where "g1 = g\<lparr>adj := dict_setitem (adj g) x (set_discard x succs),
      back_adj := dict_setitem (back_adj g) x (set_discard x preds),
      number_of_edges := number_of_edges g - 1\<rparr>"
    have s1: "block [adj_discard x x, back_adj_discard x x, count_add (- 1)] g = (None, g1)"
      by (simp add: adj_discard_present [OF succs] back_adj_discard_present preds
          count_add_def g1_def)
    have p1: "map_of (back_adj g1) x = Some (set_discard x preds)"
      by (simp add: g1_def map_of_setitem)
    have a1: "map_of (adj g1) = (map_of (adj g))(x \<mapsto> set_discard x succs)"
      by (simp add: g1_def map_of_setitem)
    have "\<forall>p\<in>set (set_discard x preds). dict_contains (adj g1) p"
      using keys by (simp add: dict_contains_def a1 set_discard_def)
    from d_remove_node_loop [OF this, of x] obtain g2 where
      run: "for_each (set_discard x preds)
              (\<lambda>parent. block [adj_discard parent x, count_add (- 1)]) g1 = (None, g2)"
      and n2: "number_of_edges g2 = number_of_edges g1 - int (length (set_discard x preds))"
      and m2: "\<forall>k. map_of (adj g2) k =
           (if k \<in> set (set_discard x preds)
            then map_option (set_discard x) (map_of (adj g1) k)
            else map_of (adj g1) k)"
      by blast
    have a2: "map_of (adj g2) x = Some (set_discard x succs)"
      using m2 by (simp add: a1 set_discard_def)
    have "d_remove_node x g = (None, g2\<lparr>number_of_edges :=
        number_of_edges g2 + - int (length (set_discard x succs)),
        adj := AList.delete x (adj g2)\<rparr>)"
      apply (simp only: d_remove_node_def node not_True_eq_False if_False)
      apply (rule trans [OF block_step [where s' = g1]])
       apply (simp add: dict_getitem_present [OF preds] True s1 del: block.simps)
      apply (rule trans [OF block_step [where s' = g2]])
       apply (simp add: dict_getitem_present [OF p1] run del: block.simps)
      apply (simp add: dict_getitem_present [OF a2] count_add_def adj_del_present a2)
      done
    then show ?thesis
      using n2 by (simp add: g1_def length_discard_card ds dp)
  next
    case False
    from d_remove_node_loop [OF keys, of x] obtain g2 where
      run: "for_each preds
              (\<lambda>parent. block [adj_discard parent x, count_add (- 1)]) g = (None, g2)"
      and n2: "number_of_edges g2 = number_of_edges g - int (length preds)"
      and m2: "\<forall>k. map_of (adj g2) k =
           (if k \<in> set preds then map_option (set_discard x) (map_of (adj g) k)
            else map_of (adj g) k)"
      by blast
    have a2: "map_of (adj g2) x = Some succs"
      using m2 False by (simp add: succs)
    have "d_remove_node x g = (None, g2\<lparr>number_of_edges :=
        number_of_edges g2 + - int (length succs),
        adj := AList.delete x (adj g2)\<rparr>)"
      apply (simp only: d_remove_node_def node not_True_eq_False if_False)
      apply (rule trans [OF block_step [where s' = g]])
       apply (simp add: dict_getitem_present [OF preds] False)
      apply (rule trans [OF block_step [where s' = g2]])
       apply (simp add: dict_getitem_present [OF preds] run del: block.simps)
      apply (simp add: dict_getitem_present [OF a2] count_add_def adj_del_present a2)
      done
    moreover have "int (length preds) = int (card (set preds - {x}))"
      using False dp by (simp add: distinct_card)
    moreover have "int (length succs) = 1 + int (card (set succs - {x}))"
      using length_discard [OF loop ds] by (simp add: length_discard_card ds)
    ultimately show ?thesis
      using n2 by simp
  qed
qed

text \<open>
  The graph of the removal test: five edges, node 1 with the self-loop, the predecessors
  3 and 5 and the successors 3 and 6. Removing node 1 leaves the counter at 0.
\<close>

lemma removal_test_graph_eq:
  "removal_test_graph =
     \<lparr>adj = [(1, [3, 6, 1]), (3, [1]), (5, [1]), (6, [])], number_of_edges = 5,
      back_adj = [(1, [3, 5, 1]), (3, [1]), (5, []), (6, [1])]\<rparr>"
  by (simp add: removal_test_graph_def run_defs)

lemma removal_test_leaves_no_edge:
  "map_of (adj removal_test_graph) 1 = Some [3, 6, 1]
   \<and> map_of (back_adj removal_test_graph) 1 = Some [3, 5, 1]
   \<and> number_of_edges removal_test_graph = 5
   \<and> fst (d_remove_node 1 removal_test_graph) = None
   \<and> number_of_edges (snd (d_remove_node 1 removal_test_graph)) = 0"
  using directed_remove_node_self_loop [of removal_test_graph 1 "[3, 6, 1]" "[3, 5, 1]"]
  by (simp add: removal_test_graph_eq dict_contains_def)

text \<open>
  Claim C5 says that on every directed graph where \<open>x\<close> has a self-loop,
  \<open>remove_node(x)\<close> takes from the counter exactly 1 for the self-loop and 1 for each
  other incident edge. The code does otherwise on a graph where an earlier \<open>remove_node\<close>
  left a label behind in \<open>back_adj\<close>: on the empty directed graph, \<open>add_edge(1, 2)\<close>,
  \<open>add_edge(2, 2)\<close>, \<open>remove_node(1)\<close> and \<open>add_node(1)\<close> return normally and give a
  graph whose only edge is the self-loop \<open>(2, 2)\<close>, with the counter at 1 and 1 still in
  \<open>back_adj[2]\<close>; \<open>remove_node(2)\<close> then takes 2 from the counter and leaves it at -1.
\<close>

theorem directed_remove_node_counts_stale_predecessor:
  "d_trace [D_add_edge 1 2, D_add_edge 2 2, D_remove_node 1, D_add_node 1]
     (DirectedGraph :: nat digraph)
   = ([None, None, None, None],
      \<lparr>adj = [(2, [2]), (1, [])], number_of_edges = 1, back_adj = [(1, []), (2, [1, 2])]\<rparr>)
   \<and> directed_iter (edges DirectedGraph)
        \<lparr>adj = [(2, [2]), (1 :: nat, [])], number_of_edges = 1,
         back_adj = [(1, []), (2, [1, 2])]\<rparr> = [(2, 2)]
   \<and> d_remove_node 2
        \<lparr>adj = [(2, [2]), (1 :: nat, [])], number_of_edges = 1,
         back_adj = [(1, []), (2, [1, 2])]\<rparr>
       = (None, \<lparr>adj = [(1, [])], number_of_edges = - 1, back_adj = [(1, []), (2, [1])]\<rparr>)"
  by (simp add: run_defs)

section \<open>Adding an undirected edge\<close>

lemma ev_contains_edges:
  "ev_contains (edges g) now (u, v) =
     Inr (case map_of (adj now) u of None \<Rightarrow> False | Some s \<Rightarrow> v \<in> set s)"
  by (simp add: ev_contains_def edges_def dict_getitem_def split: option.splits)

lemma u_ensure_ok:
  "u_ensure x g = (None, g\<lparr>adj := (if dict_contains (adj g) x then adj g
                                   else dict_setitem (adj g) x [])\<rparr>)"
  by (simp add: u_ensure_def)

lemma set_add_set: "set (set_add v s) = insert v (set s)"
  by (auto simp: set_add_def)

text \<open>
  Claim C6: on an undirected graph and for distinct labels \<open>u\<close> and \<open>v\<close>, after
  \<open>add_edge(u, v)\<close> both \<open>(u, v)\<close> and \<open>(v, u)\<close> are members of the edge view, the count
  has grown by exactly 1 when the edge was absent (and not at all when it was there),
  and a second \<open>add_edge(u, v)\<close> or \<open>add_edge(v, u)\<close> changes nothing, the count
  included. The graph is one whose store is symmetric at the pair: if \<open>(u, v)\<close> is a
  member before the call, so is \<open>(v, u)\<close>. The edge view is the one obtained before the
  call, read after it.
\<close>

theorem undirected_add_edge:
  fixes g :: "'a graph"
  assumes ne: "u \<noteq> v"
    and sym: "ev_contains (edges g) g (u, v) = Inr True
              \<Longrightarrow> ev_contains (edges g) g (v, u) = Inr True"
  shows "fst (u_add_edge u v g) = None
    \<and> ev_contains (edges g) (snd (u_add_edge u v g)) (u, v) = Inr True
    \<and> ev_contains (edges g) (snd (u_add_edge u v g)) (v, u) = Inr True
    \<and> number_of_edges (snd (u_add_edge u v g)) =
        (if ev_contains (edges g) g (u, v) = Inr True then number_of_edges g
         else number_of_edges g + 1)
    \<and> u_add_edge u v (snd (u_add_edge u v g)) = (None, snd (u_add_edge u v g))
    \<and> u_add_edge v u (snd (u_add_edge u v g)) = (None, snd (u_add_edge u v g))"
proof -
  define g1 where "g1 = snd (for_each [u, v] u_ensure g)"
  have run1: "for_each [u, v] u_ensure g = (None, g1)"
    by (simp add: g1_def u_ensure_ok)
  have n1: "number_of_edges g1 = number_of_edges g"
    by (simp add: g1_def u_ensure_ok)
  have m1: "map_of (adj g1) k =
      (case map_of (adj g) k of Some s \<Rightarrow> Some s
       | None \<Rightarrow> if k = u \<or> k = v then Some [] else None)" for k
    by (auto simp: g1_def u_ensure_ok dict_contains_def map_of_setitem split: option.splits)
  obtain su where su: "map_of (adj g1) u = Some su"
    by (cases "map_of (adj g) u") (simp_all add: m1)
  obtain sv where sv: "map_of (adj g1) v = Some sv"
    by (cases "map_of (adj g) v") (simp_all add: m1)
  have same: "ev_contains (edges g) g1 (a, b) = ev_contains (edges g) g (a, b)" for a b
    by (simp add: ev_contains_edges m1 split: option.splits)
  have same1: "ev_contains (edges g1) g1 (a, b) = ev_contains (edges g) g (a, b)" for a b
    by (simp add: ev_contains_edges m1 split: option.splits)
  show ?thesis
  proof (cases "v \<in> set su")
    case True
    have e: "ev_contains (edges g1) g1 (u, v) = Inr True"
      by (simp add: ev_contains_edges su True)
    then have present: "ev_contains (edges g) g (u, v) = Inr True"
      by (simp add: same1)
    from sym [OF this] have "ev_contains (edges g) g1 (v, u) = Inr True"
      by (simp add: same)
    then have uv: "u \<in> set sv"
      by (simp add: ev_contains_edges sv)
    have r: "u_add_edge u v g = (None, g1)"
      using ne by (simp add: u_add_edge_def run1 e del: for_each.simps)
    have idem: "for_each [a, b] u_ensure g1 = (None, g1)" if "{a, b} = {u, v}" for a b
      using that su sv by (auto simp: u_ensure_ok dict_contains_def doubleton_eq_iff)
    have e2: "ev_contains (edges g1) g1 (v, u) = Inr True"
      by (simp add: ev_contains_edges sv uv)
    have r2: "u_add_edge u v g1 = (None, g1)"
      using ne by (simp add: u_add_edge_def idem e del: for_each.simps)
    have r3: "u_add_edge v u g1 = (None, g1)"
      using ne by (simp add: u_add_edge_def idem e2 insert_commute del: for_each.simps)
    have v1: "ev_contains (edges g) g1 (a, b) = ev_contains (edges g1) g1 (a, b)" for a b
      by (simp add: ev_contains_edges)
    show ?thesis
      by (simp add: r r2 r3 n1 v1 e e2 present)
  next
    case False
    have e: "ev_contains (edges g1) g1 (u, v) = Inr False"
      by (simp add: ev_contains_edges su False)
    then have absent: "ev_contains (edges g) g (u, v) = Inr False"
      by (simp add: same1)
    define g2 where "g2 = g1\<lparr>adj := dict_setitem (dict_setitem (adj g1) u (set_add v su))
        v (set_add u sv), number_of_edges := number_of_edges g1 + 1\<rparr>"
    have r: "u_add_edge u v g = (None, g2)"
      using ne by (simp add: u_add_edge_def run1 e adj_add_present [OF su] adj_add_present
          map_of_setitem sv count_add_def g2_def del: for_each.simps)
    have m2: "map_of (adj g2) = (map_of (adj g1))(u \<mapsto> set_add v su, v \<mapsto> set_add u sv)"
      by (simp add: g2_def map_of_setitem)
    have e_uv: "ev_contains (edges g2) g2 (u, v) = Inr True"
      using ne by (simp add: ev_contains_edges m2 set_add_set)
    have e_vu: "ev_contains (edges g2) g2 (v, u) = Inr True"
      using ne by (simp add: ev_contains_edges m2 set_add_set)
    have idem: "for_each [a, b] u_ensure g2 = (None, g2)" if "{a, b} = {u, v}" for a b
      using that by (auto simp: u_ensure_ok dict_contains_def doubleton_eq_iff m2)
    have r2: "u_add_edge u v g2 = (None, g2)"
      using ne by (simp add: u_add_edge_def idem e_uv del: for_each.simps)
    have r3: "u_add_edge v u g2 = (None, g2)"
      using ne by (simp add: u_add_edge_def idem e_vu insert_commute del: for_each.simps)
    have v2: "ev_contains (edges g) g2 (a, b) = ev_contains (edges g2) g2 (a, b)" for a b
      by (simp add: ev_contains_edges)
    have n2: "number_of_edges g2 = number_of_edges g + 1"
      by (simp add: g2_def n1)
    show ?thesis
      by (simp add: r r2 r3 n2 v2 e_uv e_vu absent)
  qed
qed


text \<open>
  On the graph with the single edge between 2 and 3: adding the absent edge \<open>(5, 2)\<close>
  takes the count from 1 to 2, and adding \<open>(3, 2)\<close>, which is there, leaves it at 1.
\<close>

theorem undirected_add_edge_witness:
  "ev_contains (edges UndirectedGraph) (snd (u_add_edge (2 :: nat) 3 UndirectedGraph)) (5, 2)
     = Inr False
   \<and> number_of_edges (snd (u_add_edge 5 2 (snd (u_add_edge (2 :: nat) 3 UndirectedGraph)))) = 2
   \<and> ev_contains (edges UndirectedGraph)
        (snd (u_add_edge 5 2 (snd (u_add_edge (2 :: nat) 3 UndirectedGraph)))) (2, 5) = Inr True
   \<and> ev_contains (edges UndirectedGraph) (snd (u_add_edge (2 :: nat) 3 UndirectedGraph)) (3, 2)
     = Inr True
   \<and> ev_contains (edges UndirectedGraph) (snd (u_add_edge (2 :: nat) 3 UndirectedGraph)) (2, 3)
     = Inr True
   \<and> number_of_edges (snd (u_add_edge 3 2 (snd (u_add_edge (2 :: nat) 3 UndirectedGraph)))) = 1"
proof -
  have g: "snd (u_add_edge (2 :: nat) 3 UndirectedGraph)
      = \<lparr>adj = [(2, [3]), (3, [2])], number_of_edges = 1\<rparr>"
    by (simp add: run_defs)
  show ?thesis
    using undirected_add_edge [of 5 2 "snd (u_add_edge (2 :: nat) 3 UndirectedGraph)"]
      undirected_add_edge [of 3 2 "snd (u_add_edge (2 :: nat) 3 UndirectedGraph)"]
    by (simp add: g ev_contains_edges)
qed

section \<open>Iterating the edge views\<close>

lemma undirected_iter_row_spec:
  "undirected_iter_row u vs seen = (out, seen') \<Longrightarrow>
     seen' = seen \<union> (\<lambda>v. frozenset_pair (u, v)) ` set vs
   \<and> distinct (map frozenset_pair out)
   \<and> frozenset_pair ` set out = (\<lambda>v. frozenset_pair (u, v)) ` set vs - seen
   \<and> set out \<subseteq> Pair u ` set vs"
proof (induction vs arbitrary: seen out seen')
  case Nil
  then show ?case by simp
next
  case (Cons v vs)
  show ?case
  proof (cases "frozenset_pair (u, v) \<in> seen")
    case True
    with Cons.prems have "undirected_iter_row u vs seen = (out, seen')"
      by simp
    from Cons.IH [OF this] True show ?thesis
      by auto
  next
    case False
    obtain out1 s1 where
      r: "undirected_iter_row u vs (insert (frozenset_pair (u, v)) seen) = (out1, s1)"
      by (cases "undirected_iter_row u vs (insert (frozenset_pair (u, v)) seen)") auto
    with Cons.prems False have o: "out = (u, v) # out1" and s: "seen' = s1"
      by (simp_all add: Let_def)
    from Cons.IH [OF r] have
      a: "s1 = insert (frozenset_pair (u, v)) seen \<union> (\<lambda>v. frozenset_pair (u, v)) ` set vs"
      and b: "distinct (map frozenset_pair out1)"
      and c: "frozenset_pair ` set out1
          = (\<lambda>v. frozenset_pair (u, v)) ` set vs - insert (frozenset_pair (u, v)) seen"
      and d: "set out1 \<subseteq> Pair u ` set vs"
      by blast+
    have "frozenset_pair (u, v) \<notin> frozenset_pair ` set out1"
      unfolding c by blast
    then have "distinct (map frozenset_pair out)"
      using b by (simp add: o)
    moreover have "frozenset_pair ` set out
        = (\<lambda>v. frozenset_pair (u, v)) ` set (v # vs) - seen"
      unfolding o using c False by auto
    moreover have "set out \<subseteq> Pair u ` set (v # vs)"
      using d by (auto simp: o)
    moreover have "seen' = seen \<union> (\<lambda>v. frozenset_pair (u, v)) ` set (v # vs)"
      using a by (auto simp: s)
    ultimately show ?thesis by blast
  qed
qed

lemma stored_pairs_Cons:
  "stored_pairs ((u, ns) # d) = Pair u ` set ns \<union> stored_pairs d"
  by (auto simp: stored_pairs_def)

lemma disjoint_from_seen: "A \<subseteq> S \<Longrightarrow> B \<inter> S = {} \<Longrightarrow> A \<inter> B = {}"
  by blast

lemma union_minus_seen:
  "A = R - seen \<Longrightarrow> B = Q - (seen \<union> R) \<Longrightarrow> A \<union> B = (R \<union> Q) - seen"
  by blast

lemma undirected_iter_items_spec:
  "distinct (map frozenset_pair (undirected_iter_items d seen))
   \<and> frozenset_pair ` set (undirected_iter_items d seen)
       = frozenset_pair ` stored_pairs d - seen
   \<and> set (undirected_iter_items d seen) \<subseteq> stored_pairs d"
proof (induction d arbitrary: seen)
  case Nil
  show ?case by (simp add: stored_pairs_def)
next
  case (Cons p d)
  obtain u ns where p: "p = (u, ns)" by (cases p)
  obtain out s1 where r: "undirected_iter_row u ns seen = (out, s1)"
    by (cases "undirected_iter_row u ns seen") auto
  define R where "R = (\<lambda>v. frozenset_pair (u, v)) ` set ns"
  define rest where "rest = undirected_iter_items d s1"
  from undirected_iter_row_spec [OF r] have
    a: "s1 = seen \<union> R"
    and b: "distinct (map frozenset_pair out)"
    and c: "frozenset_pair ` set out = R - seen"
    and e: "set out \<subseteq> Pair u ` set ns"
    unfolding R_def by blast+
  from Cons.IH [of s1] have
    b': "distinct (map frozenset_pair rest)"
    and c': "frozenset_pair ` set rest = frozenset_pair ` stored_pairs d - s1"
    and e': "set rest \<subseteq> stored_pairs d"
    unfolding rest_def by blast+
  have it: "undirected_iter_items (p # d) seen = out @ rest"
    by (simp add: p r rest_def)
  have row: "frozenset_pair ` Pair u ` set ns = R"
    by (simp add: image_image R_def)
  have sub: "frozenset_pair ` set out \<subseteq> s1"
    unfolding c a by (rule Diff_subset [THEN subset_trans]) simp
  have dj: "frozenset_pair ` set rest \<inter> s1 = {}"
    unfolding c' by (rule Diff_disjoint [THEN trans [OF Int_commute]])
  have disj: "frozenset_pair ` set out \<inter> frozenset_pair ` set rest = {}"
    using sub dj by (rule disjoint_from_seen)
  have c'': "frozenset_pair ` set rest = frozenset_pair ` stored_pairs d - (seen \<union> R)"
    using c' by (simp only: a)
  have 1: "distinct (map frozenset_pair (out @ rest))"
    using b b' disj by simp
  have "frozenset_pair ` set out \<union> frozenset_pair ` set rest
      = (R \<union> frozenset_pair ` stored_pairs d) - seen"
    using c c'' by (rule union_minus_seen)
  then have 2: "frozenset_pair ` set (out @ rest)
      = frozenset_pair ` stored_pairs (p # d) - seen"
    by (simp only: p stored_pairs_Cons image_Un row set_append)
  have 3: "set (out @ rest) \<subseteq> stored_pairs (p # d)"
    using e e' by (auto simp: p stored_pairs_Cons)
  show ?case
    using 1 2 3 by (simp only: it simp_thms)
qed

lemma directed_iter_set:
  "set (concat (map (\<lambda>(u, neighbors). map (\<lambda>v. (u, v)) neighbors) d)) = stored_pairs d"
  by (induction d) (auto simp: stored_pairs_def)

lemma directed_iter_distinct:
  "pydict_ok d \<Longrightarrow> distinct (concat (map (\<lambda>(u, neighbors). map (\<lambda>v. (u, v)) neighbors) d))"
proof (induction d)
  case Nil
  show ?case by simp
next
  case (Cons p d)
  let ?f = "\<lambda>(u, neighbors). map (\<lambda>v. (u, v)) neighbors"
  obtain u ns where p: "p = (u, ns)" by (cases p)
  from Cons.prems have ok: "pydict_ok d" and dn: "distinct ns" and u: "u \<notin> fst ` set d"
    by (auto simp: pydict_ok_def p)
  have 1: "distinct (map (\<lambda>v. (u, v)) ns)"
    using dn by (simp add: distinct_map inj_on_def)
  have 2: "set (map (\<lambda>v. (u, v)) ns) \<inter> set (concat (map ?f d)) = {}"
    unfolding directed_iter_set using u by (force simp: stored_pairs_def)
  have "distinct (map (\<lambda>v. (u, v)) ns @ concat (map ?f d))"
    using 1 2 Cons.IH [OF ok] by (simp only: distinct_append simp_thms)
  then show ?case
    by (simp add: p)
qed

lemma stored_pairs_member:
  assumes "pydict_ok d"
  shows "(u, v) \<in> stored_pairs d \<longleftrightarrow> (case map_of d u of None \<Rightarrow> False | Some s \<Rightarrow> v \<in> set s)"
proof -
  have "distinct (map fst d)" using assms by (simp add: pydict_ok_def)
  then have "(u, v) \<in> stored_pairs d \<longleftrightarrow> (\<exists>ns. map_of d u = Some ns \<and> v \<in> set ns)"
    by (simp add: stored_pairs_def)
  then show ?thesis by (simp split: option.splits)
qed

lemma ev_contains_stored_pairs:
  "pydict_ok (adj now) \<Longrightarrow>
   ev_contains (edges g) now (u, v) = Inr True \<longleftrightarrow> (u, v) \<in> stored_pairs (adj now)"
  by (simp add: ev_contains_edges stored_pairs_member)

text \<open>
  Claim C7: iterating an edge view yields each edge of the graph exactly once. The
  undirected iteration yields no pair twice and never both \<open>(u, v)\<close> and \<open>(v, u)\<close>,
  yields only pairs that are members of the view, and yields every member in one of its
  two orientations. The directed iteration yields no pair twice, and yields exactly the
  pairs \<open>(u, v)\<close> with \<open>v\<close> in \<open>adj[u]\<close>, which are the members of the view. The store is
  a dictionary of sets: no key and no element of a set is repeated.
\<close>

theorem edge_iteration:
  fixes g now :: "'a graph" and g' now' :: "'a digraph"
  assumes ok: "pydict_ok (adj now)" and ok': "pydict_ok (adj now')"
  shows "distinct (undirected_iter (edges g) now)
    \<and> (\<forall>u v. (u, v) \<in> set (undirected_iter (edges g) now)
             \<and> (v, u) \<in> set (undirected_iter (edges g) now) \<longrightarrow> u = v)
    \<and> (\<forall>u v. (u, v) \<in> set (undirected_iter (edges g) now)
             \<longrightarrow> ev_contains (edges g) now (u, v) = Inr True)
    \<and> (\<forall>u v. ev_contains (edges g) now (u, v) = Inr True
             \<longrightarrow> (u, v) \<in> set (undirected_iter (edges g) now)
                 \<or> (v, u) \<in> set (undirected_iter (edges g) now))
    \<and> distinct (directed_iter (edges g') now')
    \<and> (\<forall>u v. (u, v) \<in> set (directed_iter (edges g') now')
             \<longleftrightarrow> ev_contains (edges g') now' (u, v) = Inr True)"
proof -
  define out where "out = undirected_iter (edges g) now"
  have out: "out = undirected_iter_items (adj now) {}"
    by (simp add: out_def undirected_iter_def edges_def)
  from undirected_iter_items_spec [of "adj now" "{}"] have
    d: "distinct (map frozenset_pair out)"
    and i: "frozenset_pair ` set out = frozenset_pair ` stored_pairs (adj now)"
    and s: "set out \<subseteq> stored_pairs (adj now)"
    unfolding out by simp_all
  from d have d1: "distinct out" and inj: "inj_on frozenset_pair (set out)"
    by (simp_all add: distinct_map)
  have both: "u = v" if "(u, v) \<in> set out" "(v, u) \<in> set out" for u v
  proof -
    have eq: "frozenset_pair (u, v) = frozenset_pair (v, u)"
      by (simp add: frozenset_pair_def insert_commute)
    have "(u, v) = (v, u)"
      by (rule inj_onD [OF inj eq that])
    then show ?thesis by (rule Pair_inject)
  qed
  have sound: "ev_contains (edges g) now (u, v) = Inr True" if "(u, v) \<in> set out" for u v
    using that s by (auto simp: ev_contains_stored_pairs [OF ok])
  have complete: "(u, v) \<in> set out \<or> (v, u) \<in> set out"
    if "ev_contains (edges g) now (u, v) = Inr True" for u v
  proof -
    from that have "(u, v) \<in> stored_pairs (adj now)"
      by (simp add: ev_contains_stored_pairs [OF ok])
    then have "frozenset_pair (u, v) \<in> frozenset_pair ` set out"
      unfolding i by (rule imageI)
    then obtain a b where ab: "(a, b) \<in> set out" and "frozenset_pair (u, v) = frozenset_pair (a, b)"
      by auto
    then have "(a = u \<and> b = v) \<or> (a = v \<and> b = u)"
      by (auto simp: frozenset_pair_def doubleton_eq_iff)
    with ab show ?thesis by auto
  qed
  have dd: "distinct (directed_iter (edges g') now')"
    using directed_iter_distinct [OF ok'] by (simp add: directed_iter_def edges_def)
  have dm: "(u, v) \<in> set (directed_iter (edges g') now')
      \<longleftrightarrow> ev_contains (edges g') now' (u, v) = Inr True" for u v
  proof -
    have "set (directed_iter (edges g') now') = stored_pairs (adj now')"
      by (simp only: directed_iter_def edges_def edge_view.simps directed_iter_set)
    then show ?thesis
      by (simp only: ev_contains_stored_pairs [OF ok'])
  qed
  show ?thesis
    unfolding out_def [symmetric]
  proof (intro conjI allI impI)
    show "distinct out" by (rule d1)
    show "u = v" if "(u, v) \<in> set out \<and> (v, u) \<in> set out" for u v
      using that both by simp
    show "ev_contains (edges g) now (u, v) = Inr True" if "(u, v) \<in> set out" for u v
      using that by (rule sound)
    show "(u, v) \<in> set out \<or> (v, u) \<in> set out"
      if "ev_contains (edges g) now (u, v) = Inr True" for u v
      using that by (rule complete)
    show "distinct (directed_iter (edges g') now')" by (rule dd)
    show "((u, v) \<in> set (directed_iter (edges g') now'))
        = (ev_contains (edges g') now' (u, v) = Inr True)" for u v
      by (rule dm)
  qed
qed

text \<open>
  The undirected graph with the edges between 2 and 3 and between 2 and 5 yields
  \<open>(2, 3)\<close> and \<open>(2, 5)\<close>, and not \<open>(3, 2)\<close>, which is a member; the directed graph
  with the edges \<open>(2, 3)\<close> and \<open>(3, 2)\<close> yields both.
\<close>

theorem edge_iteration_witness:
  "pydict_ok (adj (snd (u_add_edge 2 5 (snd (u_add_edge (2 :: nat) 3 UndirectedGraph)))))
   \<and> pydict_ok (adj (snd (d_add_edge 3 2 (snd (d_add_edge (2 :: nat) 3 DirectedGraph)))))
   \<and> undirected_iter (edges UndirectedGraph)
        (snd (u_add_edge 2 5 (snd (u_add_edge (2 :: nat) 3 UndirectedGraph)))) = [(2, 3), (2, 5)]
   \<and> ev_contains (edges UndirectedGraph)
        (snd (u_add_edge 2 5 (snd (u_add_edge (2 :: nat) 3 UndirectedGraph)))) (3, 2) = Inr True
   \<and> directed_iter (edges DirectedGraph)
        (snd (d_add_edge 3 2 (snd (d_add_edge (2 :: nat) 3 DirectedGraph)))) = [(2, 3), (3, 2)]
   \<and> ev_contains (edges DirectedGraph)
        (snd (d_add_edge 3 2 (snd (d_add_edge (2 :: nat) 3 DirectedGraph)))) (3, 2) = Inr True"
proof -
  have u: "snd (u_add_edge 2 5 (snd (u_add_edge (2 :: nat) 3 UndirectedGraph)))
      = \<lparr>adj = [(2, [3, 5]), (3, [2]), (5, [2])], number_of_edges = 2\<rparr>"
    by (simp add: run_defs)
  have d: "snd (d_add_edge 3 2 (snd (d_add_edge (2 :: nat) 3 DirectedGraph)))
      = \<lparr>adj = [(2, [3]), (3, [2])], number_of_edges = 2, back_adj = [(2, [3]), (3, [2])]\<rparr>"
    by (simp add: run_defs)
  have 1: "pydict_ok (adj (snd (u_add_edge 2 5 (snd (u_add_edge (2 :: nat) 3 UndirectedGraph)))))"
    by (simp add: u pydict_ok_def)
  have 2: "pydict_ok (adj (snd (d_add_edge 3 2 (snd (d_add_edge (2 :: nat) 3 DirectedGraph)))))"
    by (simp add: d pydict_ok_def)
  have 3: "undirected_iter (edges UndirectedGraph)
        (snd (u_add_edge 2 5 (snd (u_add_edge (2 :: nat) 3 UndirectedGraph)))) = [(2, 3), (2, 5)]"
    by (simp add: u view_defs doubleton_eq_iff)
  have 4: "directed_iter (edges DirectedGraph)
        (snd (d_add_edge 3 2 (snd (d_add_edge (2 :: nat) 3 DirectedGraph)))) = [(2, 3), (3, 2)]"
    by (simp add: d view_defs)
  note all = edge_iteration [OF 1 2, of UndirectedGraph DirectedGraph]
  note complete = all [THEN conjunct2, THEN conjunct2, THEN conjunct2, THEN conjunct1,
      rule_format, of 3 2]
  note member = all [THEN conjunct2, THEN conjunct2, THEN conjunct2, THEN conjunct2,
      THEN conjunct2, rule_format, of 3 2]
  have 5: "ev_contains (edges UndirectedGraph)
        (snd (u_add_edge 2 5 (snd (u_add_edge (2 :: nat) 3 UndirectedGraph)))) (3, 2) = Inr True"
    by (simp add: u ev_contains_edges)
  have 6: "ev_contains (edges DirectedGraph)
        (snd (d_add_edge 3 2 (snd (d_add_edge (2 :: nat) 3 DirectedGraph)))) (3, 2) = Inr True"
    using member by (simp only: 4) simp
  show ?thesis
    using 1 2 3 4 5 6 by (intro conjI)
qed

section \<open>Which calls raise \<open>ValueError\<close>\<close>

lemma block_no_error:
  "(\<And>p s. p \<in> set ps \<Longrightarrow> fst (p s) \<noteq> Some e) \<Longrightarrow> fst (block ps s) \<noteq> Some e"
proof (induction ps arbitrary: s)
  case Nil
  show ?case by simp
next
  case (Cons p ps)
  have "fst (p s) \<noteq> Some e" by (rule Cons.prems) simp
  moreover have "fst (block ps s') \<noteq> Some e" for s'
    by (rule Cons.IH) (simp add: Cons.prems)
  ultimately show ?case
    by (cases "p s") (auto split: option.splits)
qed

lemma for_each_no_error:
  "(\<And>x s. fst (body x s) \<noteq> Some e) \<Longrightarrow> fst (for_each xs body s) \<noteq> Some e"
proof (induction xs arbitrary: s)
  case Nil
  show ?case by simp
next
  case (Cons x xs)
  have "fst (body x s) \<noteq> Some e" by (rule Cons.prems)
  moreover have "fst (for_each xs body s') \<noteq> Some e" for s'
    by (rule Cons.IH) (rule Cons.prems)
  ultimately show ?case
    by (cases "body x s") (auto split: option.splits)
qed

lemma block_errorD:
  "fst (block ps s) = Some e \<Longrightarrow> \<exists>p\<in>set ps. \<exists>s'. fst (p s') = Some e"
  using block_no_error [of ps e s] by blast

lemma for_each_errorD:
  "fst (for_each xs body s) = Some e \<Longrightarrow> \<exists>x s'. fst (body x s') = Some e"
  using for_each_no_error [of body e xs s] by blast

lemma dict_ops_raise_KeyError:
  "dict_getitem d k = Inl e \<Longrightarrow> e = KeyError"
  "dict_add_at d k v = Inl e \<Longrightarrow> e = KeyError"
  "dict_discard_at d k v = Inl e \<Longrightarrow> e = KeyError"
  "dict_delitem d k = Inl e \<Longrightarrow> e = KeyError"
  by (auto simp: dict_getitem_def dict_add_at_def dict_discard_at_def dict_delitem_def
      split: option.splits if_splits)

lemma dict_getitem_no_ValueError: "dict_getitem d k \<noteq> Inl ValueError"
  by (simp add: dict_getitem_def split: option.splits)

lemma field_stmts_no_ValueError:
  "fst (adj_add k v g) \<noteq> Some ValueError"
  "fst (adj_discard k v g) \<noteq> Some ValueError"
  "fst (adj_del k g) \<noteq> Some ValueError"
  "fst (back_adj_add k v h) \<noteq> Some ValueError"
  "fst (back_adj_discard k v h) \<noteq> Some ValueError"
  "fst (count_add n g) \<noteq> Some ValueError"
  by (auto simp: adj_add_def adj_discard_def adj_del_def back_adj_add_def back_adj_discard_def
      count_add_def split: sum.splits dest: dict_ops_raise_KeyError)

lemma add_node_no_error: "fst (add_node x g) = None"
  by (simp add: add_node_def)

lemma u_add_edge_ValueError:
  "fst (u_add_edge u v g) = Some ValueError \<longleftrightarrow> u = v"
proof (cases "u = v")
  case True
  then show ?thesis by (simp add: u_add_edge_def raise_def)
next
  case False
  have "fst (block [
          for_each [u, v] u_ensure,
          (\<lambda>g. case ev_contains (edges g) g (u, v) of
                  Inl e \<Rightarrow> raise e g
                | Inr True \<Rightarrow> (None, g)
                | Inr False \<Rightarrow> block [adj_add u v, adj_add v u, count_add 1] g)
        ] g) \<noteq> Some ValueError"
  proof (rule block_no_error)
    fix p and s :: "'a graph"
    assume "p \<in> set [for_each [u, v] u_ensure,
          (\<lambda>g. case ev_contains (edges g) g (u, v) of
                  Inl e \<Rightarrow> raise e g
                | Inr True \<Rightarrow> (None, g)
                | Inr False \<Rightarrow> block [adj_add u v, adj_add v u, count_add 1] g)]"
    then consider "p = for_each [u, v] u_ensure"
      | "p = (\<lambda>g. case ev_contains (edges g) g (u, v) of
                  Inl e \<Rightarrow> raise e g
                | Inr True \<Rightarrow> (None, g)
                | Inr False \<Rightarrow> block [adj_add u v, adj_add v u, count_add 1] g)"
      by auto
    then show "fst (p s) \<noteq> Some ValueError"
    proof cases
      case 1
      show ?thesis unfolding 1
        by (rule for_each_no_error) (simp add: u_ensure_def)
    next
      case 2
      have "fst (block [adj_add u v, adj_add v u, count_add 1] s) \<noteq> Some ValueError"
        by (rule block_no_error) (auto simp: field_stmts_no_ValueError)
      then show ?thesis unfolding 2
        by (simp add: ev_contains_edges del: block.simps split: bool.splits option.splits)
    qed
  qed
  with False show ?thesis by (simp add: u_add_edge_def del: block.simps for_each.simps)
qed

lemma u_remove_node_no_ValueError: "fst (u_remove_node x g) \<noteq> Some ValueError"
  unfolding u_remove_node_def
  by (auto simp: raise_def field_stmts_no_ValueError
      simp del: block.simps for_each.simps
      split: sum.splits error.splits if_splits
      dest!: block_errorD for_each_errorD dest: dict_ops_raise_KeyError)

lemma u_remove_edge_no_ValueError: "fst (u_remove_edge u v g) \<noteq> Some ValueError"
  unfolding u_remove_edge_def
  by (auto simp: raise_def field_stmts_no_ValueError ev_contains_edges
      simp del: block.simps for_each.simps
      split: sum.splits bool.splits option.splits
      dest!: block_errorD)

lemma query_error: "fst (query r g) = (case r of Inl e \<Rightarrow> Some e | Inr _ \<Rightarrow> None)"
  by (simp add: query_def split: sum.splits)

lemma arbitrary_node_error: "arbitrary_node g = Inl e \<Longrightarrow> e = DoesNotExistError"
  by (simp add: arbitrary_node_def split: list.splits)

lemma d_add_edge_no_ValueError: "fst (d_add_edge u v g) \<noteq> Some ValueError"
  unfolding d_add_edge_def
  by (auto simp: field_stmts_no_ValueError d_ensure_def Let_def
      simp del: block.simps for_each.simps split: if_splits
      dest!: block_errorD for_each_errorD)

lemma d_remove_node_no_ValueError: "fst (d_remove_node x g) \<noteq> Some ValueError"
  unfolding d_remove_node_def
  by (auto simp: raise_def field_stmts_no_ValueError dict_getitem_no_ValueError
      simp del: block.simps for_each.simps
      split: sum.splits if_splits
      dest!: block_errorD for_each_errorD dest: dict_ops_raise_KeyError)

lemma d_remove_edge_no_ValueError: "fst (d_remove_edge u v g) \<noteq> Some ValueError"
  unfolding d_remove_edge_def
  by (auto simp: raise_def field_stmts_no_ValueError ev_contains_edges
      simp del: block.simps for_each.simps
      split: sum.splits bool.splits option.splits
      dest!: block_errorD)

text \<open>
  On every undirected graph and for every label \<open>x\<close>, \<open>add_edge(x, x)\<close> raises
  \<open>ValueError\<close> and leaves the graph as it was. Of the other calls, on any state, only
  \<open>len(g.edges)\<close> raises \<open>ValueError\<close>, and it does so exactly when the counter is
  negative.
\<close>

lemma calls_raising_ValueError:
  "u_add_edge x x g = (Some ValueError, g)
   \<and> (fst (u_call c g) = Some ValueError
        \<longleftrightarrow> (\<exists>y. c = U_add_edge y y) \<or> (c = U_edges_len \<and> number_of_edges g < 0))
   \<and> (fst (d_call c' g') = Some ValueError
        \<longleftrightarrow> c' = D_edges_len \<and> number_of_edges g' < 0)"
proof (intro conjI)
  show "u_add_edge x x g = (Some ValueError, g)"
    by (simp add: u_add_edge_def raise_def)
  show "fst (u_call c g) = Some ValueError
        \<longleftrightarrow> (\<exists>y. c = U_add_edge y y) \<or> (c = U_edges_len \<and> number_of_edges g < 0)"
  proof (cases c)
    case (U_add_edge u v)
    then show ?thesis by (auto simp: u_add_edge_ValueError)
  next
    case U_edges_len
    then show ?thesis
      by (simp add: query_error ev_len_def py_len_def ev_dunder_len_def edges_def)
  qed (auto simp: add_node_no_error u_remove_node_no_ValueError u_remove_edge_no_ValueError
      query_error u_neighbors_def ev_contains_edges
      split: sum.splits dest: dict_ops_raise_KeyError arbitrary_node_error)
  show "fst (d_call c' g') = Some ValueError \<longleftrightarrow> c' = D_edges_len \<and> number_of_edges g' < 0"
  proof (cases c')
    case D_edges_len
    then show ?thesis
      by (simp add: query_error ev_len_def py_len_def ev_dunder_len_def edges_def)
  qed (auto simp: add_node_no_error d_add_edge_no_ValueError d_remove_node_no_ValueError
        d_remove_edge_no_ValueError query_error predecessors_def successors_def d_neighbors_def
        ev_contains_edges
        split: sum.splits dest: dict_ops_raise_KeyError arbitrary_node_error)
qed

text \<open>
  Claim C8 says that \<open>add_edge(x, x)\<close> on an undirected graph fails with
  \<open>InvalidArgument\<close>, the \<open>ValueError\<close> of the code, and that it is raised in no other
  situation. The code does otherwise in the second part: on the empty directed graph,
  \<open>add_edge(1, 2)\<close>, \<open>remove_node(1)\<close>, \<open>add_node(1)\<close> and \<open>remove_node(2)\<close> return
  normally and leave the counter at -1, for a graph without edges, and \<open>len(g.edges)\<close>
  then raises \<open>ValueError\<close>. The second \<open>remove_node\<close> counts the predecessor 1 that the
  first one left in \<open>back_adj[2]\<close>.
\<close>

theorem edges_len_raises_ValueError:
  "d_trace [D_add_edge 1 2, D_remove_node 1, D_add_node 1, D_remove_node 2, D_edges_len]
     (DirectedGraph :: nat digraph)
   = ([None, None, None, None, Some ValueError],
      \<lparr>adj = [(1, [])], number_of_edges = - 1, back_adj = [(1, []), (2, [1])]\<rparr>)"
  by (simp add: run_defs query_def)

section \<open>Missing nodes and edges\<close>

lemma dict_getitem_absent: "\<not> dict_contains d k \<Longrightarrow> dict_getitem d k = Inl KeyError"
  by (simp add: dict_contains_def dict_getitem_def)

lemma nodes_contains_dict: "nodes_contains (nodes g) now x \<longleftrightarrow> dict_contains (adj now) x"
  by (simp add: nodes_contains_def nodes_def dict_contains_keys)

text \<open>
  What the calls on a missing node or edge raise: \<open>remove_node\<close> of a label that is not
  a node, \<open>remove_edge\<close> of a pair that is not an edge and \<open>arbitrary_node\<close> on a graph
  without nodes raise \<open>DoesNotExistError\<close>, and the removals return the graph they were
  given; \<open>neighbors\<close> and \<open>successors\<close> of a label that is not a node raise the
  \<open>KeyError\<close> of the store, and so does \<open>predecessors\<close> of a label without an entry in
  \<open>back_adj\<close>. The lookups and \<open>arbitrary_node\<close> are functions of the graph and change
  nothing.
\<close>

lemma missing_element_errors:
  fixes gu :: "'a graph" and gd :: "'a digraph"
  shows
  "(\<not> nodes_contains (nodes gu) gu x \<longrightarrow>
      u_remove_node x gu = (Some DoesNotExistError, gu) \<and> u_neighbors gu x = Inl KeyError)
   \<and> (ev_contains (edges gu) gu (u, v) = Inr False \<longrightarrow>
      u_remove_edge u v gu = (Some DoesNotExistError, gu))
   \<and> (nodes_len (nodes gu) gu = 0 \<longrightarrow> arbitrary_node gu = Inl DoesNotExistError)
   \<and> (\<not> nodes_contains (nodes gd) gd x \<longrightarrow>
      d_remove_node x gd = (Some DoesNotExistError, gd)
      \<and> successors gd x = Inl KeyError \<and> d_neighbors gd x = Inl KeyError)
   \<and> (\<not> dict_contains (back_adj gd) x \<longrightarrow> predecessors gd x = Inl KeyError)
   \<and> (ev_contains (edges gd) gd (u, v) = Inr False \<longrightarrow>
      d_remove_edge u v gd = (Some DoesNotExistError, gd))
   \<and> (nodes_len (nodes gd) gd = 0 \<longrightarrow> arbitrary_node gd = Inl DoesNotExistError)"
proof (intro conjI impI)
  assume a: "\<not> nodes_contains (nodes gu) gu x"
  then show "u_remove_node x gu = (Some DoesNotExistError, gu)"
    by (simp add: u_remove_node_def nodes_contains_dict dict_getitem_absent raise_def)
  from a show "u_neighbors gu x = Inl KeyError"
    by (simp add: u_neighbors_def nodes_contains_dict dict_getitem_absent)
next
  assume "ev_contains (edges gu) gu (u, v) = Inr False"
  then show "u_remove_edge u v gu = (Some DoesNotExistError, gu)"
    by (simp add: u_remove_edge_def raise_def)
next
  assume "nodes_len (nodes gu) gu = 0"
  then show "arbitrary_node gu = Inl DoesNotExistError"
    by (simp add: arbitrary_node_def nodes_len_def nodes_iter_def nodes_def)
next
  assume a: "\<not> nodes_contains (nodes gd) gd x"
  then show "d_remove_node x gd = (Some DoesNotExistError, gd)"
    by (simp add: d_remove_node_def raise_def)
  from a show "successors gd x = Inl KeyError"
    by (simp add: successors_def nodes_contains_dict dict_getitem_absent)
  from a show "d_neighbors gd x = Inl KeyError"
    by (simp add: d_neighbors_def successors_def nodes_contains_dict dict_getitem_absent)
next
  assume "\<not> dict_contains (back_adj gd) x"
  then show "predecessors gd x = Inl KeyError"
    by (simp add: predecessors_def dict_getitem_absent)
next
  assume "ev_contains (edges gd) gd (u, v) = Inr False"
  then show "d_remove_edge u v gd = (Some DoesNotExistError, gd)"
    by (simp add: d_remove_edge_def raise_def)
next
  assume "nodes_len (nodes gd) gd = 0"
  then show "arbitrary_node gd = Inl DoesNotExistError"
    by (simp add: arbitrary_node_def nodes_len_def nodes_iter_def nodes_def)
qed

text \<open>
  Claim C9 says that every operation that references a missing node or edge fails with
  \<open>NotFound\<close>, the lookup of the predecessors of an absent label among them, and that
  the graph is unchanged when such a failure is signaled. The code does otherwise for
  \<open>predecessors\<close>: on the empty directed graph, after \<open>add_edge(1, 2)\<close> and
  \<open>remove_node(1)\<close> the label 1 is not a node, and \<open>predecessors(1)\<close> returns the empty
  set that \<open>remove_node\<close> left under 1 in \<open>back_adj\<close>, where \<open>successors(1)\<close> raises.
\<close>

theorem predecessors_of_removed_node:
  "d_trace [D_add_edge 1 2, D_remove_node 1] (DirectedGraph :: nat digraph)
   = ([None, None], \<lparr>adj = [(2, [])], number_of_edges = 0, back_adj = [(1, []), (2, [1])]\<rparr>)
   \<and> \<not> nodes_contains (nodes DirectedGraph)
        \<lparr>adj = [(2 :: nat, [])], number_of_edges = 0, back_adj = [(1, []), (2, [1])]\<rparr> 1
   \<and> predecessors
        \<lparr>adj = [(2 :: nat, [])], number_of_edges = 0, back_adj = [(1, []), (2, [1])]\<rparr> 1
       = Inr []
   \<and> successors
        \<lparr>adj = [(2 :: nat, [])], number_of_edges = 0, back_adj = [(1, []), (2, [1])]\<rparr> 1
       = Inl KeyError"
  by (simp add: run_defs)

text \<open>
  The label left behind also makes a later \<open>remove_node\<close> fail halfway: after
  \<open>add_edge(1, 2)\<close>, \<open>add_edge(2, 2)\<close> and \<open>remove_node(1)\<close>, the call \<open>remove_node(2)\<close>
  removes the self-loop, takes 1 from the counter and then raises \<open>KeyError\<close> on the
  missing key 1 of \<open>adj\<close>.
\<close>

lemma directed_remove_node_fails_halfway:
  "d_trace [D_add_edge 1 2, D_add_edge 2 2, D_remove_node 1] (DirectedGraph :: nat digraph)
   = ([None, None, None],
      \<lparr>adj = [(2, [2])], number_of_edges = 1, back_adj = [(1, []), (2, [1, 2])]\<rparr>)
   \<and> d_remove_node 2
        \<lparr>adj = [(2 :: nat, [2])], number_of_edges = 1, back_adj = [(1, []), (2, [1, 2])]\<rparr>
       = (Some KeyError,
          \<lparr>adj = [(2, [])], number_of_edges = 0, back_adj = [(1, []), (2, [1])]\<rparr>)"
  by (simp add: run_defs)

section \<open>Undirected graphs stay symmetric\<close>

lemma ev_contains_has_edge:
  "ev_contains (edges g) now (u, v) = Inr (has_edge (adj now) u v)"
  by (simp add: ev_contains_edges has_edge_def)

lemma has_edge_map_of:
  "map_of d = map_of d' \<Longrightarrow> has_edge d = has_edge d'"
  by (simp add: has_edge_def fun_eq_iff)

lemma has_edge_setitem_empty:
  "\<not> dict_contains d x \<Longrightarrow> has_edge (dict_setitem d x []) a b = has_edge d a b"
  by (simp add: has_edge_def map_of_setitem dict_contains_def)

lemma add_node_ok:
  "undirected_ok (adj g) \<Longrightarrow> undirected_ok (adj (snd (add_node x g)))"
  by (simp add: add_node_def nodes_contains_def nodes_def undirected_ok_def
      has_edge_setitem_empty dict_contains_keys)

lemma u_ensure_has_edge:
  "has_edge (adj (snd (u_ensure x g))) a b = has_edge (adj g) a b"
  by (simp add: u_ensure_def has_edge_setitem_empty)

lemma u_add_edge_ok:
  assumes ok: "undirected_ok (adj g)"
  shows "undirected_ok (adj (snd (u_add_edge u v g)))"
proof (cases "u = v")
  case True
  with ok show ?thesis by (simp add: u_add_edge_def raise_def)
next
  case False
  then have ne: "u \<noteq> v" .
  define g1 where "g1 = snd (for_each [u, v] u_ensure g)"
  have run1: "for_each [u, v] u_ensure g = (None, g1)"
    by (simp add: g1_def u_ensure_ok)
  have h1: "has_edge (adj g1) a b = has_edge (adj g) a b" for a b
    by (simp add: g1_def u_ensure_ok) (auto simp: has_edge_setitem_empty dict_contains_setitem)
  have k1: "dict_contains (adj g1) u" "dict_contains (adj g1) v"
    by (auto simp: g1_def u_ensure_ok dict_contains_setitem)
  then obtain su sv where su: "map_of (adj g1) u = Some su" and sv: "map_of (adj g1) v = Some sv"
    by (auto simp: dict_contains_def)
  have ok1: "undirected_ok (adj g1)"
    using ok by (simp add: undirected_ok_def h1)
  show ?thesis
  proof (cases "has_edge (adj g1) u v")
    case True
    then have "u_add_edge u v g = (None, g1)"
      using ne by (simp add: u_add_edge_def run1 ev_contains_has_edge del: for_each.simps)
    with ok1 show ?thesis by simp
  next
    case False
    then have absent: "\<not> has_edge (adj g1) u v" .
    define g2 where "g2 = g1\<lparr>adj := dict_setitem (dict_setitem (adj g1) u (set_add v su))
        v (set_add u sv), number_of_edges := number_of_edges g1 + 1\<rparr>"
    have r: "u_add_edge u v g = (None, g2)"
      using ne absent
      by (simp add: u_add_edge_def run1 ev_contains_has_edge adj_add_present [OF su]
          adj_add_present map_of_setitem sv count_add_def g2_def del: for_each.simps)
    have h2: "has_edge (adj g2) a b \<longleftrightarrow>
        has_edge (adj g1) a b \<or> (a = u \<and> b = v) \<or> (a = v \<and> b = u)" for a b
      using ne su sv
      by (auto simp: g2_def has_edge_def map_of_setitem set_add_set split: option.splits)
    have "undirected_ok (adj g2)"
      using ok1 ne unfolding undirected_ok_def h2 by blast
    then show ?thesis by (simp add: r)
  qed
qed

lemma u_remove_edge_ok:
  assumes ok: "undirected_ok (adj g)"
  shows "undirected_ok (adj (snd (u_remove_edge u v g)))"
proof (cases "has_edge (adj g) u v")
  case False
  with ok show ?thesis
    by (simp add: u_remove_edge_def ev_contains_has_edge raise_def)
next
  case True
  with ok have ne: "u \<noteq> v" and vu: "has_edge (adj g) v u"
    by (auto simp: undirected_ok_def)
  from True obtain su where su: "map_of (adj g) u = Some su"
    by (auto simp: has_edge_def split: option.splits)
  from vu obtain sv where sv: "map_of (adj g) v = Some sv"
    by (auto simp: has_edge_def split: option.splits)
  define g2 where "g2 = g\<lparr>adj := dict_setitem (dict_setitem (adj g) u (set_discard v su))
        v (set_discard u sv), number_of_edges := number_of_edges g + - 1\<rparr>"
  have r: "u_remove_edge u v g = (None, g2)"
    using True ne
    by (simp add: u_remove_edge_def ev_contains_has_edge adj_discard_present [OF su]
        adj_discard_present map_of_setitem sv count_add_def g2_def)
  have h2: "has_edge (adj g2) a b \<longleftrightarrow>
      has_edge (adj g) a b \<and> \<not> (a = u \<and> b = v) \<and> \<not> (a = v \<and> b = u)" for a b
    using ne su sv
    by (auto simp: g2_def has_edge_def map_of_setitem set_discard_def split: option.splits)
  have "undirected_ok (adj g2)"
    using ok unfolding undirected_ok_def h2 by blast
  then show ?thesis by (simp add: r)
qed

lemma u_remove_node_loop:
  fixes g :: "'a graph"
  assumes "\<forall>n\<in>set ns. dict_contains (adj g) n \<and> n \<noteq> x"
  shows "\<exists>g'. for_each ns (\<lambda>neighbor.
              block [
                adj_discard neighbor x,
                count_add (- 1),
                (\<lambda>g. if neighbor = x then raise RuntimeError g else (None, g))
              ]) g = (None, g')
     \<and> (\<forall>k. map_of (adj g') k =
           (if k \<in> set ns then map_option (set_discard x) (map_of (adj g) k)
            else map_of (adj g) k))"
  using assms
proof (induction ns arbitrary: g)
  case Nil
  show ?case by simp
next
  case (Cons n ns)
  let ?body = "\<lambda>neighbor.
              block [
                adj_discard neighbor x,
                count_add (- 1),
                (\<lambda>g. if neighbor = x then raise RuntimeError g else (None, g))
              ]"
  from Cons.prems obtain s where s: "map_of (adj g) n = Some s" and nx: "n \<noteq> x"
    by (auto simp: dict_contains_def)
  define g1 where "g1 = g\<lparr>adj := dict_setitem (adj g) n (set_discard x s),
    number_of_edges := number_of_edges g + - 1\<rparr>"
  have body: "?body n g = (None, g1)"
    using nx by (simp add: adj_discard_present [OF s] count_add_def g1_def)
  have m1: "map_of (adj g1) = (map_of (adj g))(n \<mapsto> set_discard x s)"
    by (simp add: g1_def map_of_setitem)
  have "\<forall>q\<in>set ns. dict_contains (adj g1) q \<and> q \<noteq> x"
    using Cons.prems by (simp add: dict_contains_def m1)
  from Cons.IH [OF this] obtain g' where
    run: "for_each ns ?body g1 = (None, g')"
    and m: "\<forall>k. map_of (adj g') k =
           (if k \<in> set ns then map_option (set_discard x) (map_of (adj g1) k)
            else map_of (adj g1) k)"
    by blast
  have "for_each (n # ns) ?body g = (None, g')"
    using body run by (simp del: block.simps)
  moreover have "\<forall>k. map_of (adj g') k =
           (if k \<in> set (n # ns) then map_option (set_discard x) (map_of (adj g) k)
            else map_of (adj g) k)"
    using m s by (auto simp: m1 set_discard_idem)
  ultimately show ?case by blast
qed

lemma u_remove_node_ok:
  assumes ok: "undirected_ok (adj g)"
  shows "undirected_ok (adj (snd (u_remove_node x g)))"
proof (cases "map_of (adj g) x")
  case None
  with ok show ?thesis
    by (simp add: u_remove_node_def dict_getitem_def raise_def)
next
  case (Some ns)
  let ?body = "\<lambda>neighbor.
              block [
                adj_discard neighbor x,
                count_add (- 1),
                (\<lambda>g. if neighbor = x then raise RuntimeError g else (None, g))
              ]"
  have nb: "has_edge (adj g) x n" if "n \<in> set ns" for n
    using that Some by (simp add: has_edge_def)
  have "\<forall>n\<in>set ns. dict_contains (adj g) n \<and> n \<noteq> x"
  proof
    fix n assume "n \<in> set ns"
    from nb [OF this] ok have "x \<noteq> n" and "has_edge (adj g) n x"
      by (auto simp: undirected_ok_def)
    then show "dict_contains (adj g) n \<and> n \<noteq> x"
      by (auto simp: has_edge_def dict_contains_def split: option.splits)
  qed
  from u_remove_node_loop [OF this] obtain g' where
    run: "for_each ns ?body g = (None, g')"
    and m: "\<forall>k. map_of (adj g') k =
           (if k \<in> set ns then map_option (set_discard x) (map_of (adj g) k)
            else map_of (adj g) k)"
    by blast
  have xs: "x \<notin> set ns"
    using nb [of x] ok by (auto simp: undirected_ok_def)
  have mx: "map_of (adj g') x = Some ns"
    using m xs Some by simp
  have r: "u_remove_node x g = (None, g'\<lparr>adj := AList.delete x (adj g')\<rparr>)"
    by (simp add: u_remove_node_def dict_getitem_present [OF Some] run
        adj_del_present [OF mx] del: for_each.simps)
  have h: "has_edge (AList.delete x (adj g')) a b \<longleftrightarrow>
      has_edge (adj g) a b \<and> a \<noteq> x \<and> b \<noteq> x" for a b
  proof (cases "a = x")
    case True
    then show ?thesis by (simp add: has_edge_def delete_conv')
  next
    case False
    show ?thesis
    proof (cases "a \<in> set ns")
      case True
      with False m show ?thesis
        by (auto simp: has_edge_def delete_conv' set_discard_def split: option.splits)
    next
      case notin: False
      have "\<not> has_edge (adj g) a x"
      proof
        assume "has_edge (adj g) a x"
        with ok have "has_edge (adj g) x a" by (auto simp: undirected_ok_def)
        with Some notin show False by (simp add: has_edge_def)
      qed
      with False notin m show ?thesis
        by (auto simp: has_edge_def delete_conv' split: option.splits)
    qed
  qed
  have "undirected_ok (AList.delete x (adj g'))"
    using ok unfolding undirected_ok_def h by blast
  then show ?thesis by (simp add: r)
qed

lemma u_call_ok:
  "undirected_ok (adj g) \<Longrightarrow> undirected_ok (adj (snd (u_call c g)))"
  by (cases c)
    (simp_all add: add_node_ok u_add_edge_ok u_remove_node_ok u_remove_edge_ok query_def
      split: sum.splits)

text \<open>
  Every undirected graph that a program builds from the empty one is symmetric and has
  no self-loop.
\<close>

lemma u_run_ok: "undirected_ok (adj g) \<Longrightarrow> undirected_ok (adj (u_run cs g))"
  by (induction cs arbitrary: g) (simp_all add: u_call_ok)

lemma undirected_reachable_symmetric:
  "ev_contains (edges g) (u_run cs UndirectedGraph) (u, v) = Inr True \<Longrightarrow>
   u \<noteq> v \<and> ev_contains (edges g) (u_run cs UndirectedGraph) (v, u) = Inr True"
proof -
  have "undirected_ok (adj (UndirectedGraph :: 'a graph))"
    by (simp add: undirected_ok_def has_edge_def UndirectedGraph_def)
  then have "undirected_ok (adj (u_run cs (UndirectedGraph :: 'a graph)))"
    by (rule u_run_ok)
  then show "ev_contains (edges g) (u_run cs UndirectedGraph) (u, v) = Inr True \<Longrightarrow>
   u \<noteq> v \<and> ev_contains (edges g) (u_run cs UndirectedGraph) (v, u) = Inr True"
    by (simp add: ev_contains_has_edge undirected_ok_def)
qed

end
